theory Spec2Isabelle
  imports Complex_Main
begin

section \<open>RainFARM stochastic downscaling (pysteps.downscaling.rainfarm)\<close>

text \<open>
  A shallow embedding of \<^verbatim>\<open>src/pysteps/downscaling/rainfarm.py\<close>.

  Numbers are mathematical: a finite float is a real (a complex for the spectra), with no
  rounding and no overflow. What floating point adds to the reals and the code can reach
  is kept: a float array cell is an \<open>npf\<close>, a real or one of \<open>+inf\<close>, \<open>-inf\<close>, \<open>nan\<close>,
  because NumPy divides by zero without raising. A Python exception is \<open>Inl\<close> of the
  name of its class. The library functions the module calls (\<open>numpy.fft.fftfreq\<close>,
  \<open>fft2\<close>, \<open>ifft2\<close>, \<open>std\<close>, \<open>repeat\<close>, \<open>mgrid\<close>, \<open>polyfit\<close>,
  \<open>scipy.ndimage.convolve\<close>) are modelled by their documented behaviour, under their
  own names.
\<close>

subsection \<open>Float cells\<close>

datatype npf = Fin real | PInf | NInf | NaN

instantiation npf :: "{zero, one, plus, times, divide}"
begin

definition zero_npf :: npf where
  "zero_npf = Fin 0"

definition one_npf :: npf where
  "one_npf = Fin 1"

fun plus_npf :: "npf \<Rightarrow> npf \<Rightarrow> npf" where
  "plus_npf NaN v = NaN"
| "plus_npf v NaN = NaN"
| "plus_npf PInf NInf = NaN"
| "plus_npf NInf PInf = NaN"
| "plus_npf PInf v = PInf"
| "plus_npf v PInf = PInf"
| "plus_npf NInf v = NInf"
| "plus_npf v NInf = NInf"
| "plus_npf (Fin a) (Fin b) = Fin (a + b)"

fun times_npf :: "npf \<Rightarrow> npf \<Rightarrow> npf" where
  "times_npf NaN v = NaN"
| "times_npf v NaN = NaN"
| "times_npf (Fin a) (Fin b) = Fin (a * b)"
| "times_npf (Fin a) PInf = (if a = 0 then NaN else if 0 < a then PInf else NInf)"
| "times_npf (Fin a) NInf = (if a = 0 then NaN else if 0 < a then NInf else PInf)"
| "times_npf PInf (Fin b) = (if b = 0 then NaN else if 0 < b then PInf else NInf)"
| "times_npf NInf (Fin b) = (if b = 0 then NaN else if 0 < b then NInf else PInf)"
| "times_npf PInf PInf = PInf"
| "times_npf NInf NInf = PInf"
| "times_npf PInf NInf = NInf"
| "times_npf NInf PInf = NInf"

text \<open>
  Division as NumPy does it on floats, with a warning and no exception: a non-zero over
  zero is an infinity, zero over zero is \<open>nan\<close>. The model has one zero, the positive one.
\<close>

fun divide_npf :: "npf \<Rightarrow> npf \<Rightarrow> npf" where
  "divide_npf NaN v = NaN"
| "divide_npf v NaN = NaN"
| "divide_npf (Fin a) (Fin b) =
     (if b \<noteq> 0 then Fin (a / b) else if a = 0 then NaN else if 0 < a then PInf else NInf)"
| "divide_npf (Fin a) PInf = Fin 0"
| "divide_npf (Fin a) NInf = Fin 0"
| "divide_npf PInf (Fin b) = (if 0 \<le> b then PInf else NInf)"
| "divide_npf NInf (Fin b) = (if 0 \<le> b then NInf else PInf)"
| "divide_npf PInf PInf = NaN"
| "divide_npf PInf NInf = NaN"
| "divide_npf NInf PInf = NaN"
| "divide_npf NInf NInf = NaN"

instance ..

end

text \<open>Float addition, rounding apart, is associative and commutative, also at the infinities.\<close>

lemma npf_add_assoc: "(u + v) + w = u + (v + w)" for u v w :: npf
  by (cases u; cases v; cases w) simp_all

lemma npf_add_commute: "u + v = v + u" for u v :: npf
  by (cases u; cases v) simp_all

lemma npf_add_zero: "0 + u = u" for u :: npf
  by (cases u) (simp_all add: zero_npf_def)

instance npf :: comm_monoid_add
  by standard (fact npf_add_assoc npf_add_commute npf_add_zero)+

text \<open>\<^verbatim>\<open>np.exp\<close> on a float cell.\<close>

fun np_exp :: "npf \<Rightarrow> npf" where
  "np_exp (Fin x) = Fin (exp x)"
| "np_exp PInf = PInf"
| "np_exp NInf = Fin 0"
| "np_exp NaN = NaN"

text \<open>\<^verbatim>\<open>v < t\<close> for a float cell and a finite \<open>t\<close>: every comparison with \<open>nan\<close> is false.\<close>

fun np_less :: "npf \<Rightarrow> real \<Rightarrow> bool" where
  "np_less (Fin x) t = (x < t)"
| "np_less NInf t = True"
| "np_less PInf t = False"
| "np_less NaN t = False"

fun isfinite :: "npf \<Rightarrow> bool" where
  "isfinite (Fin x) = True"
| "isfinite v = False"

subsection \<open>Two-dimensional arrays\<close>

text \<open>
  An array of shape \<open>(m, n)\<close> is the list of its \<open>m\<close> rows, each of length \<open>n\<close>. NumPy
  arrays are rectangular; \<open>rect\<close> says so of a list of rows.
\<close>

type_synonym 'a array2 = "'a list list"

definition shape0 :: "'a array2 \<Rightarrow> nat" where
  "shape0 x = length x"

definition shape1 :: "'a array2 \<Rightarrow> nat" where
  "shape1 x = (case x of [] \<Rightarrow> 0 | r # _ \<Rightarrow> length r)"

definition rect :: "'a array2 \<Rightarrow> bool" where
  "rect x = list_all (\<lambda>r. length r = shape1 x) x"

definition has_shape :: "'a array2 \<Rightarrow> nat \<Rightarrow> nat \<Rightarrow> bool" where
  "has_shape x m n = (length x = m \<and> list_all (\<lambda>r. length r = n) x)"

text \<open>An elementwise operation on two arrays of one shape, and the flattening in row order.\<close>

definition map2_arr :: "('a \<Rightarrow> 'b \<Rightarrow> 'c) \<Rightarrow> 'a array2 \<Rightarrow> 'b array2 \<Rightarrow> 'c array2" where
  "map2_arr f x y = map2 (map2 f) x y"

definition map_arr :: "('a \<Rightarrow> 'b) \<Rightarrow> 'a array2 \<Rightarrow> 'b array2" where
  "map_arr f x = map (map f) x"

definition ravel :: "'a array2 \<Rightarrow> 'a list" where
  "ravel x = concat x"

text \<open>
  A step that may raise, and the rest of the function on its value: the exception of the
  step is the exception of the whole.
\<close>

definition raising :: "string + 'a \<Rightarrow> ('a \<Rightarrow> string + 'b) \<Rightarrow> string + 'b" where
  "raising r f = (case r of Inl e \<Rightarrow> Inl e | Inr v \<Rightarrow> f v)"

text \<open>Boolean-mask indexing \<^verbatim>\<open>xs[mask]\<close> of a flat array, for a mask of its length.\<close>

definition mask :: "'a list \<Rightarrow> bool list \<Rightarrow> 'a list" where
  "mask xs bs = map fst (filter snd (zip xs bs))"

subsection \<open>The library functions\<close>

text \<open>
  \<^verbatim>\<open>numpy.fft.fftfreq(n, d)\<close>: \<^verbatim>\<open>val = 1.0 / (n * d)\<close> raises on a zero product, the
  allocation of \<open>n\<close> cells raises on a negative \<open>n\<close>; the result is
  \<open>[0, 1, ..., (n-1)//2, -(n//2), ..., -1] * val\<close>.
\<close>

definition fftfreq :: "int \<Rightarrow> real \<Rightarrow> string + real list" where
  "fftfreq n d =
     (if real_of_int n * d = 0 then Inl ''ZeroDivisionError''
      else if n < 0 then Inl ''ValueError''
      else Inr (map (\<lambda>i. (if i < (nat n - 1) div 2 + 1 then real i
                            else real i - real_of_int n) * (1 / (real_of_int n * d)))
                 [0..<nat n]))"

text \<open>The two-dimensional discrete Fourier transform and its inverse.\<close>

definition fft2 :: "real array2 \<Rightarrow> complex array2" where
  "fft2 x =
     (let m = shape0 x; n = shape1 x in
      map (\<lambda>p. map (\<lambda>q. \<Sum>a\<leftarrow>[0..<m]. \<Sum>b\<leftarrow>[0..<n].
                 of_real (x ! a ! b) *
                 cis (- (2 * pi * (real p * real a / real m + real q * real b / real n))))
             [0..<n]) [0..<m])"

definition ifft2 :: "complex array2 \<Rightarrow> complex array2" where
  "ifft2 y =
     (let m = shape0 y; n = shape1 y in
      map (\<lambda>a. map (\<lambda>b. (\<Sum>p\<leftarrow>[0..<m]. \<Sum>q\<leftarrow>[0..<n].
                  y ! p ! q *
                  cis (2 * pi * (real p * real a / real m + real q * real b / real n)))
                / of_nat (m * n))
             [0..<n]) [0..<m])"

text \<open>
  \<^verbatim>\<open>ndarray.mean\<close> and \<^verbatim>\<open>ndarray.std\<close> over all cells (the population standard
  deviation); on an array with no cell NumPy returns \<open>nan\<close>.
\<close>

definition mean :: "real list \<Rightarrow> real" where
  "mean xs = sum_list xs / real (length xs)"

definition std :: "real array2 \<Rightarrow> npf" where
  "std x =
     (let xs = ravel x in
      if xs = [] then NaN
      else Fin (sqrt (mean (map (\<lambda>v. \<bar>v - mean xs\<bar>\<^sup>2) xs))))"

text \<open>\<^verbatim>\<open>np.log\<close> of a real: \<open>-inf\<close> at zero, \<open>nan\<close> below.\<close>

definition np_log :: "real \<Rightarrow> npf" where
  "np_log x = (if x = 0 then NInf else if x < 0 then NaN else Fin (ln x))"

definition the_fin :: "npf \<Rightarrow> real" where
  "the_fin v = (case v of Fin x \<Rightarrow> x | _ \<Rightarrow> 0)"

text \<open>\<^verbatim>\<open>np.repeat(x, d, axis)\<close>: every row (every cell of a row) \<open>d\<close> times in place.\<close>

definition repeat_axis0 :: "'a array2 \<Rightarrow> nat \<Rightarrow> 'a array2" where
  "repeat_axis0 x d = concat (map (replicate d) x)"

definition repeat_axis1 :: "'a array2 \<Rightarrow> nat \<Rightarrow> 'a array2" where
  "repeat_axis1 x d = map (\<lambda>r. concat (map (replicate d) r)) x"

text \<open>
  \<^verbatim>\<open>scipy.ndimage.convolve(x, k)\<close> with its defaults, \<^verbatim>\<open>mode='reflect'\<close> and origin 0:
  the output has the shape of \<open>x\<close>, its cell \<open>(i, j)\<close> is the sum over the kernel cells
  \<open>(a, b)\<close> of \<open>k[a, b] * x[i + kh // 2 - a, j + kw // 2 - b]\<close>, and a position outside
  the array reads the array mirrored about its edge, \<open>(d c b a | a b c d | d c b a)\<close>.
  The library leaves the zero weights out of the sum.
\<close>

definition reflect :: "nat \<Rightarrow> int \<Rightarrow> nat" where
  "reflect n i =
     (let p = i mod (2 * int n) in nat (if p < int n then p else 2 * int n - 1 - p))"

definition convolve :: "'a::{comm_monoid_add,times} array2 \<Rightarrow> 'a array2 \<Rightarrow> 'a array2" where
  "convolve x k =
     (let m = shape0 x; n = shape1 x; kh = shape0 k; kw = shape1 k in
      map (\<lambda>i. map (\<lambda>j. \<Sum>a\<leftarrow>[0..<kh]. \<Sum>b\<leftarrow>[0..<kw].
                 (if k ! a ! b = 0 then 0
                  else k ! a ! b *
                       x ! reflect m (int i + int (kh div 2) - int a)
                         ! reflect n (int j + int (kw div 2) - int b)))
             [0..<n]) [0..<m])"

text \<open>
  \<^verbatim>\<open>np.polyfit(x, y, 1)\<close>: the least-squares line, as (slope, intercept). It raises
  \<open>TypeError\<close> on an empty \<open>x\<close> and on lengths that differ. When all abscissae are equal
  the system is rank deficient: the library warns and returns what its solver yields,
  which is the parameter \<open>deficient\<close> here.
\<close>

definition polyfit1 ::
  "(real list \<Rightarrow> real list \<Rightarrow> string + real \<times> real) \<Rightarrow> real list \<Rightarrow> real list
    \<Rightarrow> string + real \<times> real" where
  "polyfit1 deficient x y =
     (if x = [] then Inl ''TypeError''
      else if length x \<noteq> length y then Inl ''TypeError''
      else
        let n = real (length x); sx = sum_list x; sy = sum_list y;
            sxx = (\<Sum>u\<leftarrow>x. u * u); sxy = (\<Sum>(u, v)\<leftarrow>zip x y. u * v);
            den = n * sxx - sx * sx
        in if den = 0 then deficient x y
           else let a = (n * sxy - sx * sy) / den in Inr (a, (sy - a * sx) / n))"

subsection \<open>The module\<close>

text \<open>\<^verbatim>\<open>log_slope(log_k, log_power_spectrum)\<close>, lines 21 to 36.\<close>

definition log_slope ::
  "(real list \<Rightarrow> real list \<Rightarrow> string + real \<times> real) \<Rightarrow> real list \<Rightarrow> real list
    \<Rightarrow> string + real" where
  "log_slope deficient log_k log_power_spectrum =
     (if log_k = [] then Inl ''ValueError''
      else
        let lk_min = Min (set log_k);
            lk_max = Max (set log_k);
            lk_range = lk_max - lk_min;
            lk_min = lk_min + (1 / 6) * lk_range;
            lk_max = lk_max - (1 / 6) * lk_range;
            selected = map (\<lambda>v. lk_min \<le> v \<and> v \<le> lk_max) log_k
        in if length log_power_spectrum \<noteq> length log_k then Inl ''IndexError''
           else
             let lk_sel = mask log_k selected;
                 ps_sel = mask log_power_spectrum selected
             in case polyfit1 deficient lk_sel ps_sel of
                  Inl e \<Rightarrow> Inl e
                | Inr (alpha, _) \<Rightarrow> Inr (- alpha))"

text \<open>\<^verbatim>\<open>balanced_spatial_average(x, k)\<close>, lines 39 to 41.\<close>

definition ones_like :: "'a array2 \<Rightarrow> 'b::one array2" where
  "ones_like x = map_arr (\<lambda>_. 1) x"

definition balanced_spatial_average ::
  "'a::{comm_monoid_add,times,one,divide} array2 \<Rightarrow> 'a array2 \<Rightarrow> 'a array2" where
  "balanced_spatial_average x k =
     (let ones = ones_like x in map2_arr divide (convolve x k) (convolve ones k))"

text \<open>
  \<^verbatim>\<open>downscale\<close>, lines 77 to 116, in its three stages. The frequency grids first:
  \<^verbatim>\<open>ki[:, None] ** 2 + kj[None, :] ** 2\<close>.
\<close>

definition outer_sqr :: "real list \<Rightarrow> real list \<Rightarrow> real array2" where
  "outer_sqr ki kj = map (\<lambda>u. map (\<lambda>v. u\<^sup>2 + v\<^sup>2) kj) ki"

text \<open>
  Lines 88 to 92, the slope estimated from the field: the valid cells are those of
  non-zero frequency whose log-power is finite.
\<close>

definition estimate_slope ::
  "(real list \<Rightarrow> real list \<Rightarrow> string + real \<times> real) \<Rightarrow> real array2 \<Rightarrow> real array2
    \<Rightarrow> string + real" where
  "estimate_slope deficient P k =
     (let fp = fft2 P;
          fp_abs = map_arr cmod fp;
          log_power_spectrum = map_arr (\<lambda>v. np_log (v\<^sup>2)) fp_abs;
          valid = map2_arr (\<lambda>kv lp. kv \<noteq> 0 \<and> isfinite lp) k log_power_spectrum
      in log_slope deficient
           (map ln (mask (ravel k) (ravel valid)))
           (map the_fin (mask (ravel log_power_spectrum) (ravel valid))))"

text \<open>
  Lines 94 to 100, the noise field. \<open>rand a b\<close> is the number \<^verbatim>\<open>np.random.rand\<close> draws
  for the cell \<open>(a, b)\<close>. The power of line 97 is \<open>powr\<close>: the two differ at base zero
  only, which is the cell \<open>(0, 0)\<close> that line 98 overwrites. The amplitude of a cell is
  \<open>amplitude\<close> of its squared frequency.
\<close>

definition amplitude :: "real \<Rightarrow> real \<Rightarrow> real" where
  "amplitude alpha k_sqr = sqrt (k_sqr powr (- alpha / 2))"

definition spectrum :: "(nat \<Rightarrow> nat \<Rightarrow> real) \<Rightarrow> real \<Rightarrow> real array2 \<Rightarrow> complex array2" where
  "spectrum rand alpha k_ds_sqr =
     (let fg = map (\<lambda>a. map (\<lambda>b. cis (2 * pi * rand a b)) [0..<shape1 k_ds_sqr])
                 [0..<shape0 k_ds_sqr];
          fg = map2_arr (\<lambda>z q. z * of_real (amplitude alpha q)) fg k_ds_sqr
      in fg[0 := (fg ! 0)[0 := 0]])"

definition noise :: "(nat \<Rightarrow> nat \<Rightarrow> real) \<Rightarrow> real \<Rightarrow> real array2 \<Rightarrow> real array2" where
  "noise rand alpha k_ds_sqr = map_arr Re (ifft2 (spectrum rand alpha k_ds_sqr))"

definition synthesize :: "(nat \<Rightarrow> nat \<Rightarrow> real) \<Rightarrow> real \<Rightarrow> real array2 \<Rightarrow> npf array2" where
  "synthesize rand alpha k_ds_sqr =
     (let g = noise rand alpha k_ds_sqr
      in map_arr (\<lambda>v. divide (Fin v) (std g)) g)"

text \<open>
  Lines 104 to 107, the kernel: \<^verbatim>\<open>mgrid[-rad : rad + 0.01, -rad : rad + 0.01]\<close> has
  \<open>2 * rad + 1\<close> rows and columns, \<open>mx[a, b] = a - rad\<close> and \<open>my[a, b] = b - rad\<close>.
\<close>

definition disc :: "nat \<Rightarrow> real array2" where
  "disc rad =
     map (\<lambda>a. map (\<lambda>b.
            if (real a - real rad)\<^sup>2 + (real b - real rad)\<^sup>2 \<le> (real rad)\<^sup>2
            then 1 else 0) [0..<2 * rad + 1]) [0..<2 * rad + 1]"

definition tophat :: "nat \<Rightarrow> npf array2" where
  "tophat rad =
     map_arr (\<lambda>v. divide (Fin v) (Fin (sum_list (ravel (disc rad))))) (disc rad)"

text \<open>
  Line 103, the field with every cell repeated \<open>ds_factor\<close> times along both axes, and
  line 104, the radius of the kernel: \<open>ds_factor / sqrt pi\<close> is never half an integer, so
  every rounding to the nearest integer agrees on it.
\<close>

definition upsampled :: "real array2 \<Rightarrow> int \<Rightarrow> real array2" where
  "upsampled P ds_factor = repeat_axis1 (repeat_axis0 P (nat ds_factor)) (nat ds_factor)"

definition radius :: "int \<Rightarrow> nat" where
  "radius ds_factor = nat (round (real_of_int ds_factor / sqrt pi))"

text \<open>Line 114, \<^verbatim>\<open>r[r < threshold] = 0\<close>.\<close>

definition censor :: "real \<Rightarrow> npf array2 \<Rightarrow> npf array2" where
  "censor t r = map_arr (\<lambda>v. if np_less v t then 0 else v) r"

text \<open>Lines 101 to 114, from the normalised noise \<open>g\<close> to the output.\<close>

definition renormalize :: "real array2 \<Rightarrow> int \<Rightarrow> npf array2 \<Rightarrow> real option \<Rightarrow> npf array2" where
  "renormalize P ds_factor g threshold =
     (let r = map_arr np_exp g;
          P_u = upsampled P ds_factor;
          rad = radius ds_factor;
          P_agg = balanced_spatial_average (map_arr Fin P_u) (tophat rad);
          r_agg = balanced_spatial_average r (tophat rad);
          r = map2_arr (*) r (map2_arr divide P_agg r_agg)
      in case threshold of
           None \<Rightarrow> r
         | Some t \<Rightarrow> censor t r)"

text \<open>The kernel as reals, for the proofs: its total is not zero.\<close>

abbreviation weights :: "nat \<Rightarrow> real array2" where
  "weights rad \<equiv> map_arr (\<lambda>v. v / sum_list (ravel (disc rad))) (disc rad)"

definition downscale ::
  "(nat \<Rightarrow> nat \<Rightarrow> real) \<Rightarrow> (real list \<Rightarrow> real list \<Rightarrow> string + real \<times> real) \<Rightarrow> real array2
    \<Rightarrow> real option \<Rightarrow> int \<Rightarrow> real option \<Rightarrow> string + npf array2" where
  "downscale rand deficient P alpha ds_factor threshold =
     raising (fftfreq (int (shape0 P)) 1) (\<lambda>ki.
     raising (fftfreq (int (shape1 P)) 1) (\<lambda>kj.
     let k_sqr = outer_sqr ki kj;
         k = map_arr sqrt k_sqr
     in
     raising (if ds_factor = 0 then Inl ''ZeroDivisionError''
              else Inr (1 / real_of_int ds_factor)) (\<lambda>d.
     raising (fftfreq (int (shape0 P) * ds_factor) d) (\<lambda>ki_ds.
     raising (fftfreq (int (shape1 P) * ds_factor) d) (\<lambda>kj_ds.
     let k_ds_sqr = outer_sqr ki_ds kj_ds
     in
     raising (case alpha of None \<Rightarrow> estimate_slope deficient P k | Some a \<Rightarrow> Inr a) (\<lambda>alpha.
     Inr (renormalize P ds_factor (synthesize rand alpha k_ds_sqr) threshold)))))))"

text \<open>What lines 101 to 111 compute when the noise is finite, as reals, for the proofs.\<close>

abbreviation finite_output :: "real array2 \<Rightarrow> int \<Rightarrow> real array2 \<Rightarrow> real array2" where
  "finite_output P ds_factor h \<equiv>
     map2_arr (*) (map_arr exp h)
       (map2_arr (/)
          (balanced_spatial_average (upsampled P ds_factor) (weights (radius ds_factor)))
          (balanced_spatial_average (map_arr exp h) (weights (radius ds_factor))))"






section \<open>Properties\<close>

subsection \<open>Shapes\<close>

lemma has_shape_tab: "has_shape (map (\<lambda>i. map (f i) [0..<n]) [0..<m]) m n"
  by (simp add: has_shape_def list_all_iff)

lemma has_shape_shape0: "has_shape x m n \<Longrightarrow> shape0 x = m"
  by (simp add: has_shape_def shape0_def)

lemma has_shape_shape1: "has_shape x m n \<Longrightarrow> 0 < m \<Longrightarrow> shape1 x = n"
  by (cases x) (simp_all add: has_shape_def shape1_def)

lemma has_shape_map_arr: "has_shape x m n \<Longrightarrow> has_shape (map_arr f x) m n"
  by (simp add: has_shape_def map_arr_def list_all_iff)

lemma has_shape_map2_arr:
  "has_shape x m n \<Longrightarrow> has_shape y m n \<Longrightarrow> has_shape (map2_arr f x y) m n"
  by (auto simp add: has_shape_def map2_arr_def list_all_iff dest!: set_zip_leftD set_zip_rightD
      elim!: in_set_zipE)

lemma has_shape_convolve: "has_shape (convolve x k) (shape0 x) (shape1 x)"
  by (simp add: convolve_def Let_def has_shape_tab)

lemma has_shape_ifft2: "has_shape (ifft2 y) (shape0 y) (shape1 y)"
  by (simp add: ifft2_def Let_def has_shape_tab)

lemma length_concat_replicate: "length (concat (map (replicate d) xs)) = length xs * d"
  by (induction xs) simp_all

lemma has_shape_censor: "has_shape r m n \<Longrightarrow> has_shape (censor t r) m n"
  by (simp add: censor_def has_shape_map_arr)

lemma has_shape_repeat:
  "has_shape P m n \<Longrightarrow> has_shape (repeat_axis1 (repeat_axis0 P d) d) (m * d) (n * d)"
  by (auto simp add: has_shape_def repeat_axis0_def repeat_axis1_def list_all_iff
      length_concat_replicate)

lemma fftfreq_length: "fftfreq n d = Inr ks \<Longrightarrow> length ks = nat n"
  by (auto simp add: fftfreq_def split: if_splits)

lemma has_shape_outer_sqr: "has_shape (outer_sqr ki kj) (length ki) (length kj)"
  by (simp add: outer_sqr_def has_shape_def list_all_iff)

lemma has_shape_update:
  "has_shape x m n \<Longrightarrow> has_shape (x[0 := (x ! 0)[0 := v]]) m n"
  by (cases x) (simp_all add: has_shape_def)

lemma has_shape_spectrum:
  "has_shape q m n \<Longrightarrow> 0 < m \<Longrightarrow> has_shape (spectrum rand alpha q) m n"
  unfolding spectrum_def Let_def
  by (intro has_shape_update has_shape_map2_arr)
     (simp_all add: has_shape_shape0 has_shape_shape1 has_shape_tab)

lemma has_shape_synthesize:
  "has_shape q m n \<Longrightarrow> 0 < m \<Longrightarrow> has_shape (synthesize rand alpha q) m n"
  unfolding synthesize_def Let_def noise_def
  apply (rule has_shape_map_arr)+
  using has_shape_ifft2 [of "spectrum rand alpha q"] has_shape_spectrum [of q m n rand alpha]
  by (simp add: has_shape_shape0 has_shape_shape1)

lemma has_shape_convolve':
  "has_shape x m n \<Longrightarrow> 0 < m \<Longrightarrow> has_shape (convolve x k) m n"
  using has_shape_convolve [of x k] by (simp add: has_shape_shape0 has_shape_shape1)

lemma has_shape_bsa:
  "has_shape x m n \<Longrightarrow> 0 < m \<Longrightarrow> has_shape (balanced_spatial_average x k) m n"
  unfolding balanced_spatial_average_def Let_def ones_like_def
  by (intro has_shape_map2_arr has_shape_convolve' has_shape_map_arr)

lemma fftfreq_ok: "0 < n \<Longrightarrow> d \<noteq> 0 \<Longrightarrow> \<exists>ks. fftfreq n d = Inr ks"
  by (simp add: fftfreq_def)

lemma has_shape_renormalize:
  assumes "has_shape P m n" "0 < m" "0 < d" "has_shape g (m * nat d) (n * nat d)"
  shows "has_shape (renormalize P d g threshold) (m * nat d) (n * nat d)"
proof -
  have pos: "0 < m * nat d" using assms by simp
  have Pu: "has_shape (map_arr Fin (upsampled P d)) (m * nat d) (n * nat d)"
    unfolding upsampled_def by (intro has_shape_map_arr has_shape_repeat assms)
  have r: "has_shape (map_arr np_exp g) (m * nat d) (n * nat d)"
    by (intro has_shape_map_arr assms)
  show ?thesis
    unfolding renormalize_def Let_def
    by (auto split: option.split intro!: has_shape_censor has_shape_map2_arr has_shape_bsa Pu r pos)
qed

text \<open>
  C1. For a field of shape \<open>(m, n)\<close> with \<open>m, n \<ge> 1\<close> and a factor \<open>D \<ge> 1\<close>, the array
  that \<open>downscale\<close> returns has shape \<open>(m * D, n * D)\<close>; and it does return one whenever
  the slope is supplied: an exception can only come from the estimation of the slope.
\<close>

theorem downscale_shape:
  assumes "has_shape P m n" "1 \<le> m" "1 \<le> n" "1 \<le> ds_factor"
  shows "case downscale rand deficient P alpha ds_factor threshold of
           Inr r \<Rightarrow> has_shape r (m * nat ds_factor) (n * nat ds_factor)
         | Inl e \<Rightarrow> alpha = None"
proof -
  have s0: "shape0 P = m" and s1: "shape1 P = n"
    using assms by (simp_all add: has_shape_shape0 has_shape_shape1)
  have dpos: "0 < int m * ds_factor" "0 < int n * ds_factor"
    using assms by simp_all
  obtain ki where ki: "fftfreq (int m) 1 = Inr ki"
    using assms fftfreq_ok [of "int m" 1] by auto
  obtain kj where kj: "fftfreq (int n) 1 = Inr kj"
    using assms fftfreq_ok [of "int n" 1] by auto
  obtain ki_ds where ki_ds: "fftfreq (int m * ds_factor) (1 / real_of_int ds_factor) = Inr ki_ds"
    using assms fftfreq_ok [OF dpos(1), of "1 / real_of_int ds_factor"] by auto
  obtain kj_ds where kj_ds: "fftfreq (int n * ds_factor) (1 / real_of_int ds_factor) = Inr kj_ds"
    using assms fftfreq_ok [OF dpos(2), of "1 / real_of_int ds_factor"] by auto
  have q: "has_shape (outer_sqr ki_ds kj_ds) (m * nat ds_factor) (n * nat ds_factor)"
    using has_shape_outer_sqr [of ki_ds kj_ds] fftfreq_length [OF ki_ds] fftfreq_length [OF kj_ds]
      assms by (simp add: nat_mult_distrib)
  have out: "has_shape (renormalize P ds_factor (synthesize rand a (outer_sqr ki_ds kj_ds)) threshold)
      (m * nat ds_factor) (n * nat ds_factor)" for a
    using assms by (intro has_shape_renormalize has_shape_synthesize q) simp_all
  show ?thesis
    using assms out
    by (simp add: downscale_def raising_def s0 s1 ki kj ki_ds kj_ds Let_def
        split: sum.split option.split)
qed

theorem downscale_shape_witness:
  "has_shape [[1, 2, 3], [4, 5, 6::real]] 2 3 \<and>
   (case downscale (\<lambda>a b. 0) (\<lambda>x y. Inl ''LinAlgError'') [[1, 2, 3], [4, 5, 6]] (Some 1) 2 None of
      Inr r \<Rightarrow> has_shape r 4 6
    | Inl e \<Rightarrow> False)"
  using downscale_shape [where P = "[[1, 2, 3], [4, 5, 6]]" and m = 2 and n = 3
      and ds_factor = 2 and rand = "\<lambda>a b. 0" and deficient = "\<lambda>x y. Inl ''LinAlgError''"
      and alpha = "Some 1" and threshold = None]
  by (simp add: has_shape_def split: sum.splits)

subsection \<open>The synthesized spectrum\<close>

lemma fftfreq_nth:
  assumes "fftfreq n d = Inr ks" "i < nat n"
  shows "ks ! i = (if i < (nat n - 1) div 2 + 1 then real i else real i - real_of_int n)
      * (1 / (real_of_int n * d))"
  using assms by (auto simp add: fftfreq_def split: if_splits)

lemma fftfreq_zero_iff:
  assumes "fftfreq n d = Inr ks" "i < nat n"
  shows "ks ! i = 0 \<longleftrightarrow> i = 0"
proof -
  have nd: "real_of_int n * d \<noteq> 0" and n: "0 \<le> n"
    using assms(1) by (auto simp add: fftfreq_def split: if_splits)
  have "real i - real_of_int n \<noteq> 0"
    using assms(2) n by auto
  then show ?thesis
    using fftfreq_nth [OF assms] nd by auto
qed

lemma outer_sqr_nth:
  "a < length ki \<Longrightarrow> b < length kj \<Longrightarrow> outer_sqr ki kj ! a ! b = (ki ! a)\<^sup>2 + (kj ! b)\<^sup>2"
  by (simp add: outer_sqr_def)

lemma map2_arr_nth:
  "a < length x \<Longrightarrow> a < length y \<Longrightarrow> b < length (x ! a) \<Longrightarrow> b < length (y ! a) \<Longrightarrow>
   map2_arr f x y ! a ! b = f (x ! a ! b) (y ! a ! b)"
  by (simp add: map2_arr_def)

lemma has_shape_nth_length: "has_shape x m n \<Longrightarrow> a < m \<Longrightarrow> length (x ! a) = n"
  by (auto simp add: has_shape_def list_all_iff)

lemma has_shape_length: "has_shape x m n \<Longrightarrow> length x = m"
  by (simp add: has_shape_def)

lemma spectrum_nth:
  assumes "has_shape q m n" "a < m" "b < n" "(a, b) \<noteq> (0, 0)"
  shows "spectrum rand alpha q ! a ! b
    = cis (2 * pi * rand a b) * of_real (amplitude alpha (q ! a ! b))"
proof -
  let ?fg0 = "map (\<lambda>a. map (\<lambda>b. cis (2 * pi * rand a b)) [0..<shape1 q]) [0..<shape0 q]"
  let ?fg = "map2_arr (\<lambda>z q. z * of_real (amplitude alpha q)) ?fg0 q"
  have s: "shape0 q = m" "shape1 q = n"
    using assms by (simp_all add: has_shape_shape0 has_shape_shape1)
  have cell: "?fg ! a ! b = cis (2 * pi * rand a b) * of_real (amplitude alpha (q ! a ! b))"
    using assms by (subst map2_arr_nth) (simp_all add: s has_shape_length has_shape_nth_length)
  have len: "length ?fg = m"
    using assms by (simp add: map2_arr_def s has_shape_length)
  have "(?fg[0 := (?fg ! 0)[0 := 0]]) ! a ! b = ?fg ! a ! b"
  proof (cases "a = 0")
    case True
    then have "b \<noteq> 0" using assms by simp
    then show ?thesis using True len assms by simp
  next
    case False
    then show ?thesis by simp
  qed
  then show ?thesis
    by (simp add: spectrum_def Let_def cell)
qed

lemma spectrum_dc:
  assumes "has_shape q m n" "0 < m" "0 < n"
  shows "spectrum rand alpha q ! 0 ! 0 = 0"
proof -
  have "has_shape (map2_arr (\<lambda>z q. z * of_real (amplitude alpha q))
      (map (\<lambda>a. map (\<lambda>b. cis (2 * pi * rand a b)) [0..<shape1 q]) [0..<shape0 q]) q) m n"
    using assms by (intro has_shape_map2_arr) (simp_all add: has_shape_shape0 has_shape_shape1 has_shape_tab)
  then show ?thesis
    using assms by (simp add: spectrum_def Let_def has_shape_length has_shape_nth_length)
qed

lemma amplitude_nonneg: "0 \<le> amplitude alpha q"
  by (simp add: amplitude_def)

lemma amplitude_half_power:
  assumes "0 < q"
  shows "amplitude alpha q = sqrt q powr (- alpha / 2)"
proof -
  have "amplitude alpha q = (q powr (- alpha / 2)) powr (1 / 2)"
    by (simp add: amplitude_def powr_half_sqrt)
  also have "\<dots> = (q powr (1 / 2)) powr (- alpha / 2)"
    by (simp add: powr_powr mult.commute)
  finally show ?thesis
    using assms by (simp add: powr_half_sqrt)
qed

lemma amplitude_sqr:
  assumes "0 < q"
  shows "(amplitude alpha q)\<^sup>2 = sqrt q powr (- alpha)"
proof -
  have "(amplitude alpha q)\<^sup>2 = q powr (- alpha / 2)"
    by (simp add: amplitude_def)
  also have "\<dots> = (q powr (1 / 2)) powr (- alpha)"
    by (simp add: powr_powr)
  finally show ?thesis
    using assms by (simp add: powr_half_sqrt)
qed

text \<open>
  C7 (as amended). At every cell of the upsampled grid but \<open>(0, 0)\<close> the squared frequency
  \<open>q = k_ds\<^sup>2\<close> is positive, and the magnitude of the spectrum there is the amplitude
  \<open>sqrt (q ^ (- alpha / 2))\<close>, which is \<open>k_ds ^ (- alpha / 2)\<close>: it is the squared magnitude,
  the power, that is \<open>k_ds ^ (- alpha)\<close>.
\<close>

theorem amplitude_power_law:
  assumes "fftfreq M d = Inr ki_ds" "fftfreq N d = Inr kj_ds"
    and "a < nat M" "b < nat N" "(a, b) \<noteq> (0, 0)"
  shows "let k_ds_sqr = outer_sqr ki_ds kj_ds; q = k_ds_sqr ! a ! b in
     0 < q \<and>
     cmod (spectrum rand alpha k_ds_sqr ! a ! b) = amplitude alpha q \<and>
     amplitude alpha q = sqrt q powr (- alpha / 2) \<and>
     (amplitude alpha q)\<^sup>2 = sqrt q powr (- alpha)"
proof -
  let ?q = "outer_sqr ki_ds kj_ds"
  have len: "length ki_ds = nat M" "length kj_ds = nat N"
    using assms by (simp_all add: fftfreq_length)
  have shape: "has_shape ?q (nat M) (nat N)"
    using has_shape_outer_sqr [of ki_ds kj_ds] by (simp add: len)
  have "ki_ds ! a \<noteq> 0 \<or> kj_ds ! b \<noteq> 0"
    using assms fftfreq_zero_iff [OF assms(1,3)] fftfreq_zero_iff [OF assms(2,4)] by auto
  then have pos: "0 < ?q ! a ! b"
    using assms by (auto simp add: outer_sqr_nth len sum_power2_gt_zero_iff)
  have "cmod (spectrum rand alpha ?q ! a ! b) = amplitude alpha (?q ! a ! b)"
    using spectrum_nth [OF shape assms(3,4,5)]
    by (simp add: norm_mult amplitude_nonneg)
  then show ?thesis
    unfolding Let_def
    using pos amplitude_half_power [OF pos, of alpha] amplitude_sqr [OF pos, of alpha] by blast
qed

lemma upt4: "[0..<4] = [0, 1, 2, 3]"
  by (simp add: upt_rec)

lemma fftfreq_4: "fftfreq 4 (1 / 4) = Inr [0, 1, - 2, - 1]"
  by (simp add: fftfreq_def upt4)

theorem amplitude_power_law_witness:
  "fftfreq 4 (1 / 4) = Inr [0, 1, - 2, - 1] \<and> (2::nat) < nat 4 \<and> (0::nat) < nat 4 \<and>
   (2::nat, 0::nat) \<noteq> (0, 0) \<and>
   cmod (spectrum (\<lambda>a b. 0) 2 (outer_sqr [0, 1, - 2, - 1] [0, 1, - 2, - 1]) ! 2 ! 0) = 1 / 2"
  using amplitude_power_law [OF fftfreq_4 fftfreq_4, of 2 0 "\<lambda>a b. 0" 2]
  by (simp add: fftfreq_4 Let_def outer_sqr_def powr_minus)

text \<open>
  C7 as stated fails: for a \<open>1 \<times> 1\<close> field and factor 4 the cell \<open>(2, 0)\<close> has \<open>k_ds = 2\<close>,
  and with \<open>alpha = 2\<close> the amplitude is \<open>1 / 2\<close>, not \<open>k_ds ^ (- alpha) = 1 / 4\<close>.
\<close>

theorem amplitude_not_k_powr_minus_alpha:
  "fftfreq 4 (1 / 4) = Inr [0, 1, - 2, - 1] \<and>
   outer_sqr [0, 1, - 2, - 1] [0, 1, - 2, - 1] ! 2 ! 0 = 4 \<and>
   amplitude 2 4 = 1 / 2 \<and> sqrt 4 powr (- 2) = 1 / 4 \<and>
   amplitude 2 4 \<noteq> sqrt 4 powr (- 2)"
proof -
  have a: "amplitude 2 4 = 1 / 2"
    by (simp add: amplitude_def powr_minus real_sqrt_divide field_simps)
  have b: "sqrt 4 powr (- 2) = 1 / 4"
    by (simp add: powr_minus field_simps)
  have c: "amplitude 2 4 \<noteq> sqrt 4 powr (- 2)"
    unfolding a b by simp
  have d: "outer_sqr [0, 1, - 2, - 1] [0, 1, - 2, - 1] ! 2 ! 0 = 4"
    by (simp add: outer_sqr_def)
  show ?thesis
    using a b c d fftfreq_4 by blast
qed

subsection \<open>The noise field: zero mean, unit standard deviation\<close>

lemma sum_list_upt: "sum_list (map f [0..<n]) = sum f {..<n}"
  by (simp add: interv_sum_list_conv_sum_set_nat atLeast0LessThan)

lemma root_of_unity_sum:
  assumes "0 < M" "p < M"
  shows "(\<Sum>a<M. cis (2 * pi * (real p * real a / real M))) = (if p = 0 then of_nat M else 0)"
proof (cases "p = 0")
  case True
  then show ?thesis by simp
next
  case False
  let ?w = "cis (2 * pi * real p / real M)"
  have pw: "cis (2 * pi * (real p * real a / real M)) = ?w ^ a" for a
    by (simp add: DeMoivre algebra_simps)
  have "?w \<noteq> 1"
  proof
    assume "?w = 1"
    then have "cos (2 * pi * real p / real M) = 1"
      by (metis Re_complex_of_real cis.sel(1) of_real_1 one_complex.sel(1))
    then obtain k :: int where "2 * pi * real p / real M = of_int k * 2 * pi"
      using cos_one_2pi_int by blast
    then have "real p = of_int k * real M"
      using assms by (simp add: field_simps)
    then have "int p = k * int M"
      by (metis of_int_eq_iff of_int_mult of_int_of_nat_eq)
    then have "int M dvd int p" by simp
    then have "M dvd p" by (simp only: int_dvd_int_iff)
    then show False using assms False by (auto dest: dvd_imp_le)
  qed
  moreover have "?w ^ M = 1"
  proof -
    have "?w ^ M = cis (2 * pi * real p)"
      using assms by (simp add: DeMoivre)
    then show ?thesis by simp
  qed
  ultimately have "(\<Sum>a<M. ?w ^ a) = 0"
    by (simp add: geometric_sum)
  then have "(\<Sum>a<M. cis (2 * pi * (real p * real a / real M))) = 0"
    by (simp only: pw)
  then show ?thesis using False by simp
qed


lemma sum_four_swap:
  fixes f :: "nat \<Rightarrow> nat \<Rightarrow> nat \<Rightarrow> nat \<Rightarrow> complex"
  shows "(\<Sum>a<M. \<Sum>b<N. \<Sum>p<M. \<Sum>q<N. f a b p q) = (\<Sum>p<M. \<Sum>q<N. \<Sum>a<M. \<Sum>b<N. f a b p q)"
proof -
  have "(\<Sum>a<M. \<Sum>b<N. \<Sum>p<M. \<Sum>q<N. f a b p q) = (\<Sum>a<M. \<Sum>p<M. \<Sum>b<N. \<Sum>q<N. f a b p q)"
    by (rule sum.cong [OF refl]) (rule sum.swap)
  also have "\<dots> = (\<Sum>p<M. \<Sum>a<M. \<Sum>b<N. \<Sum>q<N. f a b p q)"
    by (rule sum.swap)
  also have "\<dots> = (\<Sum>p<M. \<Sum>a<M. \<Sum>q<N. \<Sum>b<N. f a b p q)"
    by (rule sum.cong [OF refl], rule sum.cong [OF refl], rule sum.swap)
  also have "\<dots> = (\<Sum>p<M. \<Sum>q<N. \<Sum>a<M. \<Sum>b<N. f a b p q)"
    by (rule sum.cong [OF refl], rule sum.swap)
  finally show ?thesis .
qed

lemma ifft2_total:
  fixes y :: "nat \<Rightarrow> nat \<Rightarrow> complex"
  assumes "0 < M" "0 < N"
  shows "(\<Sum>a<M. \<Sum>b<N. \<Sum>p<M. \<Sum>q<N.
            y p q * cis (2 * pi * (real p * real a / real M + real q * real b / real N)))
         = y 0 0 * of_nat (M * N)"
proof -
  let ?A = "\<lambda>p a. cis (2 * pi * (real p * real a / real M))"
  let ?B = "\<lambda>q b. cis (2 * pi * (real q * real b / real N))"
  have split: "cis (2 * pi * (real p * real a / real M + real q * real b / real N))
      = ?A p a * ?B q b" for p a q b
    by (simp add: cis_mult algebra_simps)
  have inner: "(\<Sum>a<M. \<Sum>b<N. y p q * (?A p a * ?B q b))
      = y p q * ((\<Sum>a<M. ?A p a) * (\<Sum>b<N. ?B q b))" for p q
    by (subst sum_product) (simp only: sum_distrib_left)
  have "(\<Sum>a<M. \<Sum>b<N. \<Sum>p<M. \<Sum>q<N.
            y p q * cis (2 * pi * (real p * real a / real M + real q * real b / real N)))
      = (\<Sum>p<M. \<Sum>q<N. \<Sum>a<M. \<Sum>b<N. y p q * (?A p a * ?B q b))"
    by (simp only: split) (rule sum_four_swap)
  also have "\<dots> = (\<Sum>p<M. \<Sum>q<N. y p q * ((\<Sum>a<M. ?A p a) * (\<Sum>b<N. ?B q b)))"
    by (simp only: inner)
  also have "\<dots> = (\<Sum>p<M. \<Sum>q<N. y p q *
      ((if p = 0 then of_nat M else 0) * (if q = 0 then of_nat N else 0)))"
    by (intro sum.cong [OF refl]) (simp only: root_of_unity_sum assms lessThan_iff)
  also have "\<dots> = (\<Sum>p<M. \<Sum>q<N. if p = 0 \<and> q = 0 then y 0 0 * of_nat (M * N) else 0)"
    by (rule sum.cong [OF refl], rule sum.cong [OF refl]) auto
  also have "\<dots> = (\<Sum>p<M. if p = 0 then y 0 0 * of_nat (M * N) else 0)"
  proof (rule sum.cong [OF refl])
    fix p
    have "(\<Sum>q<N. if q = 0 then y 0 0 * of_nat (M * N) else 0) = y 0 0 * of_nat (M * N)"
      using assms by (simp add: sum.delta)
    then show "(\<Sum>q<N. if p = 0 \<and> q = 0 then y 0 0 * of_nat (M * N) else 0)
        = (if p = 0 then y 0 0 * of_nat (M * N) else 0)"
      by (cases "p = 0") simp_all
  qed
  also have "\<dots> = y 0 0 * of_nat (M * N)"
    using assms by (simp add: sum.delta)
  finally show ?thesis .
qed


lemma ravel_map_arr: "ravel (map_arr f x) = map f (ravel x)"
  by (simp add: ravel_def map_arr_def map_concat)

lemma sum_list_concat_rows: "sum_list (concat xss) = sum_list (map sum_list xss)"
  for xss :: "'a::monoid_add list list"
  by (induction xss) simp_all

lemma sum_list_ravel_tab:
  "sum_list (ravel (map (\<lambda>a. map (f a) [0..<n]) [0..<m])) = (\<Sum>a<m. \<Sum>b<n. f a b)"
  by (simp add: ravel_def sum_list_concat_rows comp_def sum_list_upt)

lemma length_ravel: "has_shape x m n \<Longrightarrow> length (ravel x) = m * n"
  unfolding ravel_def has_shape_def
  by (induction x arbitrary: m) (auto simp add: list_all_iff)

lemma ifft2_real_total:
  assumes "has_shape y M N" "0 < M" "0 < N"
  shows "sum_list (ravel (map_arr Re (ifft2 y))) = Re (y ! 0 ! 0)"
proof -
  have s: "shape0 y = M" "shape1 y = N"
    using assms by (simp_all add: has_shape_shape0 has_shape_shape1)
  let ?S = "\<lambda>a b. \<Sum>p<M. \<Sum>q<N. y ! p ! q *
      cis (2 * pi * (real p * real a / real M + real q * real b / real N))"
  have "map_arr Re (ifft2 y) = map (\<lambda>a. map (\<lambda>b. Re (?S a b / of_nat (M * N))) [0..<N]) [0..<M]"
    by (simp add: ifft2_def map_arr_def Let_def s sum_list_upt comp_def)
  then have "sum_list (ravel (map_arr Re (ifft2 y))) = (\<Sum>a<M. \<Sum>b<N. Re (?S a b / of_nat (M * N)))"
    by (simp only: sum_list_ravel_tab)
  also have "\<dots> = Re ((\<Sum>a<M. \<Sum>b<N. ?S a b) / of_nat (M * N))"
    by (simp only: Re_sum sum_divide_distrib)
  also have "\<dots> = Re (y ! 0 ! 0 * of_nat (M * N) / of_nat (M * N))"
    by (simp only: ifft2_total [OF assms(2,3), of "\<lambda>p q. y ! p ! q"])
  also have "\<dots> = Re (y ! 0 ! 0)"
    using assms by simp
  finally show ?thesis .
qed

lemma sum_list_divide: "(\<Sum>v\<leftarrow>xs. f v / s) = (\<Sum>v\<leftarrow>xs. f v) / (s::real)"
  by (induction xs) (simp_all add: add_divide_distrib)

lemma mean_map_divide: "mean (map (\<lambda>v. f v / s) xs) = mean (map f xs) / s"
  by (simp add: mean_def comp_def sum_list_divide)

lemma mean_divide: "mean (map (\<lambda>v. v / s) xs) = mean xs / s"
  using mean_map_divide [of "\<lambda>v. v" s xs] by simp

lemma mean_nonneg: "(\<And>v. v \<in> set xs \<Longrightarrow> 0 \<le> v) \<Longrightarrow> 0 \<le> mean xs"
  by (simp add: mean_def sum_list_nonneg)

lemma std_scale:
  assumes "ravel g \<noteq> []" "std g = Fin t" "s \<noteq> 0"
  shows "std (map_arr (\<lambda>v. v / s) g) = Fin (t / \<bar>s\<bar>)"
proof -
  let ?xs = "ravel g"
  let ?mu = "mean ?xs"
  have t: "t = sqrt (mean (map (\<lambda>v. \<bar>v - ?mu\<bar>\<^sup>2) ?xs))"
    using assms by (simp add: std_def Let_def)
  have "map (\<lambda>v. \<bar>v - ?mu / s\<bar>\<^sup>2) (map (\<lambda>v. v / s) ?xs)
      = map (\<lambda>v. \<bar>v - ?mu\<bar>\<^sup>2 / s\<^sup>2) ?xs"
    by (simp add: comp_def diff_divide_distrib [symmetric] power_divide)
  then have "mean (map (\<lambda>v. \<bar>v - ?mu / s\<bar>\<^sup>2) (map (\<lambda>v. v / s) ?xs))
      = mean (map (\<lambda>v. \<bar>v - ?mu\<bar>\<^sup>2) ?xs) / s\<^sup>2"
    by (simp only: mean_map_divide)
  then show ?thesis
    using assms(1)
    by (simp add: std_def Let_def ravel_map_arr mean_divide t real_sqrt_divide)
qed


lemma std_cases:
  assumes "ravel g \<noteq> []"
  obtains t where "std g = Fin t" "0 \<le> t"
proof -
  have "0 \<le> mean (map (\<lambda>v. \<bar>v - mean (ravel g)\<bar>\<^sup>2) (ravel g))"
    by (rule mean_nonneg) auto
  then show thesis
    using assms that by (simp add: std_def Let_def)
qed

lemma map_arr_comp: "map_arr f (map_arr h x) = map_arr (\<lambda>v. f (h v)) x"
  by (simp add: map_arr_def comp_def)

text \<open>
  C6. The cell \<open>(0, 0)\<close> of the spectrum is zero before the inverse transform, so the real
  noise field has mean exactly zero; and when its standard deviation is not zero, the
  field divided by it is finite, of the same shape, of mean zero and of standard deviation
  one, for every \<open>alpha\<close>, every draw of the phases and every grid.
\<close>

theorem noise_zero_mean_unit_std:
  assumes "has_shape q M N" "0 < M" "0 < N"
  shows "let fg = spectrum rand alpha q; g = noise rand alpha q in
     fg ! 0 ! 0 = 0 \<and> mean (ravel g) = 0 \<and>
     (std g \<noteq> Fin 0 \<longrightarrow>
        (\<exists>h. synthesize rand alpha q = map_arr Fin h \<and> has_shape h M N \<and>
             mean (ravel h) = 0 \<and> std h = Fin 1))"
proof -
  let ?fg = "spectrum rand alpha q"
  let ?g = "map_arr Re (ifft2 ?fg)"
  have fg: "has_shape ?fg M N"
    using assms by (simp add: has_shape_spectrum)
  have dc: "?fg ! 0 ! 0 = 0"
    using assms by (rule spectrum_dc)
  have g: "has_shape ?g M N"
    using has_shape_ifft2 [of ?fg] fg assms
    by (simp add: has_shape_shape0 has_shape_shape1 has_shape_map_arr)
  have total: "sum_list (ravel ?g) = 0"
    using ifft2_real_total [OF fg assms(2,3)] dc by simp
  then have mean0: "mean (ravel ?g) = 0"
    by (simp add: mean_def)
  have ne: "ravel ?g \<noteq> []"
    using length_ravel [OF g] assms by auto
  obtain t where t: "std ?g = Fin t" "0 \<le> t"
    using ne by (rule std_cases)
  have "\<exists>h. synthesize rand alpha q = map_arr Fin h \<and> has_shape h M N \<and>
      mean (ravel h) = 0 \<and> std h = Fin 1" if "std ?g \<noteq> Fin 0"
  proof -
    from that t have tpos: "0 < t" by simp
    let ?h = "map_arr (\<lambda>v. v / t) ?g"
    have "synthesize rand alpha q = map_arr (\<lambda>v. divide (Fin v) (Fin t)) ?g"
      by (simp add: synthesize_def noise_def Let_def t)
    also have "\<dots> = map_arr Fin ?h"
      using tpos by (simp add: map_arr_comp)
    finally have a: "synthesize rand alpha q = map_arr Fin ?h" .
    have b: "has_shape ?h M N"
      using g by (rule has_shape_map_arr)
    have "mean (ravel ?h) = mean (ravel ?g) / t"
      by (simp only: ravel_map_arr mean_divide)
    then have c: "mean (ravel ?h) = 0"
      by (simp add: mean0)
    have d: "std ?h = Fin 1"
      using std_scale [OF ne t(1), of t] tpos by simp
    show ?thesis
      using a b c d by blast
  qed
  then show ?thesis
    unfolding Let_def noise_def using dc mean0 by blast
qed

lemma upt2: "[0..<2] = [0, 1]"
  by (simp add: upt_rec)

lemma spectrum_example: "spectrum (\<lambda>a b. 0) 0 [[0, 1 / 4]] = [[0, 1]]"
  by (simp add: spectrum_def shape0_def shape1_def map2_arr_def amplitude_def upt2)

lemma noise_example: "map_arr Re (ifft2 [[0, 1]]) = [[1 / 2, - (1 / 2)]]"
  by (simp add: ifft2_def shape0_def shape1_def map_arr_def upt2)

lemma std_example: "std [[1 / 2, - (1 / 2)]] = Fin (1 / 2)"
  by (simp add: std_def ravel_def mean_def real_sqrt_divide power_divide)

theorem noise_zero_mean_unit_std_witness:
  "has_shape [[0, 1 / 4 :: real]] 1 2 \<and>
   std (noise (\<lambda>a b. 0) 0 [[0, 1 / 4]]) = Fin (1 / 2) \<and>
   mean (ravel (noise (\<lambda>a b. 0) 0 [[0, 1 / 4]])) = 0 \<and>
   (\<exists>h. synthesize (\<lambda>a b. 0) 0 [[0, 1 / 4]] = map_arr Fin h \<and> has_shape h 1 2 \<and>
        mean (ravel h) = 0 \<and> std h = Fin 1)"
  using noise_zero_mean_unit_std [where q = "[[0, 1 / 4]]" and M = 1 and N = 2
      and rand = "\<lambda>a b. 0" and alpha = 0]
  by (simp add: has_shape_def Let_def noise_def spectrum_example noise_example std_example)

subsection \<open>Convolution with mirrored edges\<close>

lemma reflect_less: "0 < n \<Longrightarrow> reflect n i < n"
proof -
  assume n: "0 < n"
  let ?p = "i mod (2 * int n)"
  have "0 \<le> ?p" "?p < 2 * int n"
    using n by simp_all
  then show ?thesis
    using n by (auto simp add: reflect_def Let_def)
qed

lemma map_arr_nth:
  "i < length x \<Longrightarrow> j < length (x ! i) \<Longrightarrow> map_arr f x ! i ! j = f (x ! i ! j)"
  by (simp add: map_arr_def)

lemma shape0_map_arr: "shape0 (map_arr f x) = shape0 x"
  by (simp add: shape0_def map_arr_def)

lemma shape1_map_arr: "shape1 (map_arr f x) = shape1 x"
  by (cases x) (simp_all add: shape1_def map_arr_def)

lemma rect_nth_length: "rect k \<Longrightarrow> a < shape0 k \<Longrightarrow> length (k ! a) = shape1 k"
  by (simp add: rect_def shape0_def list_all_length)

lemma has_shape_rect: "has_shape x m n \<Longrightarrow> 0 < m \<Longrightarrow> rect x"
  using has_shape_shape1 [of x m n] by (simp add: rect_def has_shape_def)

lemma rect_has_shape: "rect x \<Longrightarrow> has_shape x (shape0 x) (shape1 x)"
  by (simp add: rect_def has_shape_def shape0_def)

lemma convolve_nth:
  assumes "i < shape0 x" "j < shape1 x"
  shows "convolve x k ! i ! j =
    (\<Sum>a\<leftarrow>[0..<shape0 k]. \<Sum>b\<leftarrow>[0..<shape1 k].
       (if k ! a ! b = 0 then 0
        else k ! a ! b *
             x ! reflect (shape0 x) (int i + int (shape0 k div 2) - int a)
               ! reflect (shape1 x) (int j + int (shape1 k div 2) - int b)))"
  using assms by (simp add: convolve_def Let_def cong: if_cong)

lemma array_eqI:
  assumes "has_shape x m n" "has_shape y m n"
    and "\<And>i j. i < m \<Longrightarrow> j < n \<Longrightarrow> x ! i ! j = y ! i ! j"
  shows "x = y"
proof (rule nth_equalityI)
  show "length x = length y"
    using assms by (simp add: has_shape_def)
next
  fix i assume i: "i < length x"
  then have im: "i < m" using assms by (simp add: has_shape_def)
  have lx: "length (x ! i) = n" and ly: "length (y ! i) = n"
    using assms im by (simp_all add: has_shape_nth_length)
  show "x ! i = y ! i"
    by (rule nth_equalityI) (simp_all add: lx ly assms(3) im)
qed

lemma sum_list_Fin: "sum_list (map (\<lambda>a. Fin (f a)) xs) = Fin (sum_list (map f xs))"
  by (induction xs) (simp_all add: zero_npf_def)

lemma Fin_zero_iff: "Fin v = 0 \<longleftrightarrow> v = 0"
  by (simp add: zero_npf_def)

lemma convolve_Fin:
  assumes "rect x" "0 < shape0 x" "0 < shape1 x" "rect k"
  shows "convolve (map_arr Fin x) (map_arr Fin k) = map_arr Fin (convolve x k)"
proof (rule array_eqI [where m = "shape0 x" and n = "shape1 x"])
  show "has_shape (convolve (map_arr Fin x) (map_arr Fin k)) (shape0 x) (shape1 x)"
    using has_shape_convolve [of "map_arr Fin x" "map_arr Fin k"]
    by (simp add: shape0_map_arr shape1_map_arr)
  show "has_shape (map_arr Fin (convolve x k)) (shape0 x) (shape1 x)"
    by (intro has_shape_map_arr has_shape_convolve)
next
  fix i j assume ij: "i < shape0 x" "j < shape1 x"
  let ?ri = "\<lambda>a. reflect (shape0 x) (int i + int (shape0 k div 2) - int a)"
  let ?rj = "\<lambda>b. reflect (shape1 x) (int j + int (shape1 k div 2) - int b)"
  have xcell: "map_arr Fin x ! ?ri a ! ?rj b = Fin (x ! ?ri a ! ?rj b)" for a b
  proof -
    have "?ri a < shape0 x" "?rj b < shape1 x"
      using assms by (simp_all add: reflect_less)
    then show ?thesis
      using assms(1) by (simp add: map_arr_nth rect_nth_length shape0_def [symmetric])
  qed
  have kcell: "map_arr Fin k ! a ! b = Fin (k ! a ! b)" if "a < shape0 k" "b < shape1 k" for a b
    using that assms(4) by (simp add: map_arr_nth rect_nth_length shape0_def [symmetric])
  have inner: "(\<Sum>b\<leftarrow>[0..<shape1 k].
        (if map_arr Fin k ! a ! b = 0 then 0
         else map_arr Fin k ! a ! b * map_arr Fin x ! ?ri a ! ?rj b))
      = Fin (\<Sum>b\<leftarrow>[0..<shape1 k].
        (if k ! a ! b = 0 then 0 else k ! a ! b * x ! ?ri a ! ?rj b))"
    if "a < shape0 k" for a
  proof -
    have "map (\<lambda>b. (if map_arr Fin k ! a ! b = 0 then 0
         else map_arr Fin k ! a ! b * map_arr Fin x ! ?ri a ! ?rj b)) [0..<shape1 k]
      = map (\<lambda>b. Fin (if k ! a ! b = 0 then 0 else k ! a ! b * x ! ?ri a ! ?rj b)) [0..<shape1 k]"
      using that by (intro map_cong refl) (simp add: kcell xcell Fin_zero_iff zero_npf_def)
    then show ?thesis
      by (simp only: sum_list_Fin)
  qed
  have "map (\<lambda>a. \<Sum>b\<leftarrow>[0..<shape1 k].
        (if map_arr Fin k ! a ! b = 0 then 0
         else map_arr Fin k ! a ! b * map_arr Fin x ! ?ri a ! ?rj b)) [0..<shape0 k]
      = map (\<lambda>a. Fin (\<Sum>b\<leftarrow>[0..<shape1 k].
        (if k ! a ! b = 0 then 0 else k ! a ! b * x ! ?ri a ! ?rj b))) [0..<shape0 k]"
    by (intro map_cong refl) (simp add: inner)
  then have "convolve (map_arr Fin x) (map_arr Fin k) ! i ! j = Fin (convolve x k ! i ! j)"
    using ij by (simp only: convolve_nth shape0_map_arr shape1_map_arr sum_list_Fin)
  moreover have "map_arr Fin (convolve x k) ! i ! j = Fin (convolve x k ! i ! j)"
    using ij has_shape_convolve [of x k]
    by (simp add: map_arr_nth has_shape_length has_shape_nth_length)
  ultimately show "convolve (map_arr Fin x) (map_arr Fin k) ! i ! j
      = map_arr Fin (convolve x k) ! i ! j"
    by simp
qed


lemma convolve_real_nth:
  fixes x k :: "real array2"
  assumes "i < shape0 x" "j < shape1 x"
  shows "convolve x k ! i ! j =
    (\<Sum>a\<leftarrow>[0..<shape0 k]. \<Sum>b\<leftarrow>[0..<shape1 k].
       k ! a ! b *
       x ! reflect (shape0 x) (int i + int (shape0 k div 2) - int a)
         ! reflect (shape1 x) (int j + int (shape1 k div 2) - int b))"
proof -
  have "(if v = 0 then 0 else v * w) = v * w" for v w :: real
    by simp
  then show ?thesis
    by (simp only: convolve_nth [OF assms])
qed

lemma sum_list_rows:
  fixes k :: "real array2"
  assumes "rect k"
  shows "sum_list (ravel k) = (\<Sum>a\<leftarrow>[0..<shape0 k]. \<Sum>b\<leftarrow>[0..<shape1 k]. k ! a ! b)"
proof -
  have row: "sum_list (k ! a) = (\<Sum>b\<leftarrow>[0..<shape1 k]. k ! a ! b)" if "a < shape0 k" for a
    using rect_nth_length [OF assms that] map_nth [of "k ! a"] by simp
  have "sum_list (ravel k) = sum_list (map sum_list k)"
    by (simp add: ravel_def sum_list_concat_rows)
  also have "\<dots> = sum_list (map sum_list (map (\<lambda>a. k ! a) [0..<shape0 k]))"
    by (simp add: shape0_def map_nth)
  also have "\<dots> = (\<Sum>a\<leftarrow>[0..<shape0 k]. sum_list (k ! a))"
    by (simp add: comp_def)
  also have "\<dots> = (\<Sum>a\<leftarrow>[0..<shape0 k]. \<Sum>b\<leftarrow>[0..<shape1 k]. k ! a ! b)"
    by (rule arg_cong [where f = sum_list], rule map_cong [OF refl]) (simp add: row)
  finally show ?thesis .
qed

lemma ones_like_shape: "has_shape x m n \<Longrightarrow> has_shape (ones_like x) m n"
  by (simp add: ones_like_def has_shape_map_arr)

lemma shape0_ones_like: "shape0 (ones_like x) = shape0 x"
  by (simp add: ones_like_def shape0_map_arr)

lemma shape1_ones_like: "shape1 (ones_like x) = shape1 x"
  by (simp add: ones_like_def shape1_map_arr)

lemma rect_map_arr: "rect x \<Longrightarrow> rect (map_arr f x)"
  by (simp add: rect_def shape1_map_arr) (simp add: map_arr_def list_all_iff)

lemma rect_ones_like: "rect x \<Longrightarrow> rect (ones_like x)"
  by (simp add: ones_like_def rect_map_arr)

lemma ones_like_nth:
  "rect x \<Longrightarrow> i < shape0 x \<Longrightarrow> j < shape1 x \<Longrightarrow> ones_like x ! i ! j = 1"
  by (simp add: ones_like_def map_arr_nth rect_nth_length shape0_def [symmetric])

lemma convolve_ones:
  fixes k :: "real array2"
  assumes "rect x" "i < shape0 x" "j < shape1 x" "rect k"
  shows "convolve (ones_like x :: real array2) k ! i ! j = sum_list (ravel k)"
proof -
  have pos: "0 < shape0 x" "0 < shape1 x"
    using assms by auto
  have "convolve (ones_like x :: real array2) k ! i ! j
      = (\<Sum>a\<leftarrow>[0..<shape0 k]. \<Sum>b\<leftarrow>[0..<shape1 k]. k ! a ! b *
           (ones_like x :: real array2) ! reflect (shape0 x) (int i + int (shape0 k div 2) - int a)
             ! reflect (shape1 x) (int j + int (shape1 k div 2) - int b))"
    using assms by (simp add: convolve_real_nth shape0_ones_like shape1_ones_like)
  also have "\<dots> = (\<Sum>a\<leftarrow>[0..<shape0 k]. \<Sum>b\<leftarrow>[0..<shape1 k]. k ! a ! b)"
    using assms(1) pos by (simp add: ones_like_nth reflect_less)
  finally show ?thesis
    using assms by (simp add: sum_list_rows)
qed

subsection \<open>The kernel\<close>

lemma convolve_real_sum:
  fixes x k :: "real array2"
  assumes "i < shape0 x" "j < shape1 x"
  shows "convolve x k ! i ! j =
    (\<Sum>a<shape0 k. \<Sum>b<shape1 k.
       k ! a ! b *
       x ! reflect (shape0 x) (int i + int (shape0 k div 2) - int a)
         ! reflect (shape1 x) (int j + int (shape1 k div 2) - int b))"
  by (simp only: convolve_real_nth [OF assms] sum_list_upt)


lemma convolve_pos:
  fixes x k :: "real array2"
  assumes "i < shape0 x" "j < shape1 x"
    and "\<And>i j. i < shape0 x \<Longrightarrow> j < shape1 x \<Longrightarrow> 0 < x ! i ! j"
    and "\<And>a b. a < shape0 k \<Longrightarrow> b < shape1 k \<Longrightarrow> 0 \<le> k ! a ! b"
    and "c < shape0 k" "d < shape1 k" "0 < k ! c ! d"
  shows "0 < convolve x k ! i ! j"
proof -
  have pos: "0 < shape0 x" "0 < shape1 x" using assms by auto
  let ?t = "\<lambda>a b. k ! a ! b *
       x ! reflect (shape0 x) (int i + int (shape0 k div 2) - int a)
         ! reflect (shape1 x) (int j + int (shape1 k div 2) - int b)"
  have xr: "0 < x ! reflect (shape0 x) u ! reflect (shape1 x) v" for u v
    by (intro assms(3) reflect_less pos)
  have nonneg: "0 \<le> ?t a b" if "a < shape0 k" "b < shape1 k" for a b
    using that assms(4) [OF that] xr [THEN less_imp_le] by (intro mult_nonneg_nonneg)
  have "0 < ?t c d"
    using assms(7) xr by (intro mult_pos_pos)
  then have "0 < (\<Sum>b<shape1 k. ?t c b)"
    using assms(5,6) nonneg by (rule_tac sum_pos2 [where i = d]) simp_all
  moreover have "0 \<le> (\<Sum>b<shape1 k. ?t a b)" if "a < shape0 k" for a
    using that nonneg by (rule_tac sum_nonneg) simp
  ultimately have "0 < (\<Sum>a<shape0 k. \<Sum>b<shape1 k. ?t a b)"
    using assms(5) by (rule_tac sum_pos2 [where i = c]) simp_all
  then show ?thesis
    by (simp only: convolve_real_sum [OF assms(1,2)])
qed

lemma disc_shape: "has_shape (disc rad) (2 * rad + 1) (2 * rad + 1)"
  unfolding disc_def by (rule has_shape_tab)

lemma disc_shape0: "shape0 (disc rad) = 2 * rad + 1"
  using disc_shape by (rule has_shape_shape0)

lemma disc_shape1: "shape1 (disc rad) = 2 * rad + 1"
  using disc_shape by (rule has_shape_shape1) simp

lemma disc_nth:
  "a < 2 * rad + 1 \<Longrightarrow> b < 2 * rad + 1 \<Longrightarrow>
   disc rad ! a ! b =
     (if (real a - real rad)\<^sup>2 + (real b - real rad)\<^sup>2 \<le> (real rad)\<^sup>2 then 1 else 0)"
  by (simp add: disc_def del: upt_Suc)

lemma disc_centre: "disc rad ! rad ! rad = 1"
  by (simp add: disc_nth)

lemma disc_nonneg: "a < 2 * rad + 1 \<Longrightarrow> b < 2 * rad + 1 \<Longrightarrow> 0 \<le> disc rad ! a ! b"
  by (simp add: disc_nth)

lemma disc_rect: "rect (disc rad)"
  using disc_shape by (rule has_shape_rect) simp

lemma disc_total_pos: "0 < sum_list (ravel (disc rad))"
proof -
  have "0 < (\<Sum>b\<in>{..<2 * rad + 1}. disc rad ! rad ! b)"
    by (rule sum_pos2 [where i = rad]) (simp_all add: disc_centre disc_nonneg del: sum.lessThan_Suc)
  moreover have "0 \<le> (\<Sum>b\<in>{..<2 * rad + 1}. disc rad ! a ! b)" if "a < 2 * rad + 1" for a
    using that by (intro sum_nonneg disc_nonneg) simp_all
  ultimately have "0 < (\<Sum>a\<in>{..<2 * rad + 1}. \<Sum>b\<in>{..<2 * rad + 1}. disc rad ! a ! b)"
    by (rule_tac sum_pos2 [where i = rad]) (simp_all del: sum.lessThan_Suc)
  then show ?thesis
    by (simp only: sum_list_rows [OF disc_rect] disc_shape0 disc_shape1 sum_list_upt)
qed

lemma tophat_Fin: "tophat rad = map_arr Fin (weights rad)"
  using disc_total_pos [of rad] by (simp add: tophat_def map_arr_comp)

lemma weights_shape: "has_shape (weights rad) (2 * rad + 1) (2 * rad + 1)"
  by (intro has_shape_map_arr disc_shape)

lemma weights_rect: "rect (weights rad)"
  by (intro rect_map_arr disc_rect)

lemma weights_nth:
  "a < 2 * rad + 1 \<Longrightarrow> b < 2 * rad + 1 \<Longrightarrow>
   weights rad ! a ! b = disc rad ! a ! b / sum_list (ravel (disc rad))"
  using disc_shape [of rad] by (simp add: map_arr_nth has_shape_length has_shape_nth_length)

lemma weights_nonneg: "a < 2 * rad + 1 \<Longrightarrow> b < 2 * rad + 1 \<Longrightarrow> 0 \<le> weights rad ! a ! b"
  using disc_total_pos [of rad] by (simp add: weights_nth disc_nonneg)

lemma weights_centre: "0 < weights rad ! rad ! rad"
  using disc_total_pos [of rad] by (simp add: weights_nth disc_centre)

lemma weights_total: "sum_list (ravel (weights rad)) = 1"
  using disc_total_pos [of rad] by (simp add: ravel_map_arr sum_list_divide)

subsection \<open>The balanced average on finite cells\<close>

lemma map_arr_cell:
  "has_shape x m n \<Longrightarrow> i < m \<Longrightarrow> j < n \<Longrightarrow> map_arr f x ! i ! j = f (x ! i ! j)"
  by (simp add: map_arr_nth has_shape_length has_shape_nth_length)

lemma map2_arr_cell:
  "has_shape x m n \<Longrightarrow> has_shape y m n \<Longrightarrow> i < m \<Longrightarrow> j < n \<Longrightarrow>
   map2_arr f x y ! i ! j = f (x ! i ! j) (y ! i ! j)"
  by (simp add: map2_arr_nth has_shape_length has_shape_nth_length)

lemma map2_arr_Fin_divide:
  assumes "has_shape A m n" "has_shape B m n"
    and "\<And>i j. i < m \<Longrightarrow> j < n \<Longrightarrow> B ! i ! j \<noteq> 0"
  shows "map2_arr divide (map_arr Fin A) (map_arr Fin B) = map_arr Fin (map2_arr (/) A B)"
proof (rule array_eqI [where m = m and n = n])
  show "has_shape (map2_arr divide (map_arr Fin A) (map_arr Fin B)) m n"
    by (intro has_shape_map2_arr has_shape_map_arr assms)
  show "has_shape (map_arr Fin (map2_arr (/) A B)) m n"
    by (intro has_shape_map2_arr has_shape_map_arr assms)
next
  fix i j assume ij: "i < m" "j < n"
  have AB: "has_shape (map2_arr (/) A B) m n" "has_shape (map_arr Fin A) m n"
    "has_shape (map_arr Fin B) m n"
    by (intro has_shape_map2_arr has_shape_map_arr assms)+
  show "map2_arr divide (map_arr Fin A) (map_arr Fin B) ! i ! j
      = map_arr Fin (map2_arr (/) A B) ! i ! j"
    using ij assms(3) [OF ij]
    by (simp add: map2_arr_cell [OF AB(2,3)] map_arr_cell [OF AB(1)] map_arr_cell [OF assms(1)]
        map_arr_cell [OF assms(2)] map2_arr_cell [OF assms(1,2)])
qed

lemma map2_arr_Fin_times:
  assumes "has_shape A m n" "has_shape B m n"
  shows "map2_arr (*) (map_arr Fin A) (map_arr Fin B) = map_arr Fin (map2_arr (*) A B)"
proof (rule array_eqI [where m = m and n = n])
  show "has_shape (map2_arr (*) (map_arr Fin A) (map_arr Fin B)) m n"
    by (intro has_shape_map2_arr has_shape_map_arr assms)
  show "has_shape (map_arr Fin (map2_arr (*) A B)) m n"
    by (intro has_shape_map2_arr has_shape_map_arr assms)
next
  fix i j assume ij: "i < m" "j < n"
  have AB: "has_shape (map2_arr (*) A B) m n" "has_shape (map_arr Fin A) m n"
    "has_shape (map_arr Fin B) m n"
    by (intro has_shape_map2_arr has_shape_map_arr assms)+
  show "map2_arr (*) (map_arr Fin A) (map_arr Fin B) ! i ! j
      = map_arr Fin (map2_arr (*) A B) ! i ! j"
    using ij
    by (simp add: map2_arr_cell [OF AB(2,3)] map_arr_cell [OF AB(1)] map_arr_cell [OF assms(1)]
        map_arr_cell [OF assms(2)] map2_arr_cell [OF assms(1,2)])
qed

lemma ones_like_Fin: "(ones_like (map_arr Fin x) :: npf array2) = map_arr Fin (ones_like x)"
  by (simp add: ones_like_def map_arr_comp one_npf_def)

lemma bsa_real_cell:
  fixes x k :: "real array2"
  assumes "has_shape x m n" "i < m" "j < n" "rect k"
  shows "balanced_spatial_average x k ! i ! j = convolve x k ! i ! j / sum_list (ravel k)"
proof -
  have s: "shape0 x = m" "shape1 x = n" and r: "rect x"
    using assms by (auto simp add: has_shape_shape0 has_shape_shape1 intro: has_shape_rect)
  have c1: "has_shape (convolve x k) m n"
    using assms by (intro has_shape_convolve') auto
  have c2: "has_shape (convolve (ones_like x :: real array2) k) m n"
    using assms by (intro has_shape_convolve' ones_like_shape) auto
  show ?thesis
    using assms(2,3)
    by (simp add: balanced_spatial_average_def Let_def map2_arr_cell [OF c1 c2]
        convolve_ones [OF r _ _ assms(4)] s)
qed

lemma bsa_Fin:
  assumes "has_shape x m n" "0 < m" "0 < n" "rect k" "sum_list (ravel k) \<noteq> 0"
  shows "balanced_spatial_average (map_arr Fin x) (map_arr Fin k)
    = map_arr Fin (balanced_spatial_average x k)"
proof -
  have s: "shape0 x = m" "shape1 x = n" and r: "rect x"
    using assms by (auto simp add: has_shape_shape0 has_shape_shape1 intro: has_shape_rect)
  have c1: "has_shape (convolve x k) m n"
    using assms by (intro has_shape_convolve') auto
  have c2: "has_shape (convolve (ones_like x :: real array2) k) m n"
    using assms by (intro has_shape_convolve' ones_like_shape) auto
  have nz: "convolve (ones_like x :: real array2) k ! i ! j \<noteq> 0" if "i < m" "j < n" for i j
    using that assms(5) by (simp add: convolve_ones [OF r _ _ assms(4)] s)
  have "balanced_spatial_average (map_arr Fin x) (map_arr Fin k)
      = map2_arr divide (map_arr Fin (convolve x k)) (map_arr Fin (convolve (ones_like x) k))"
    using assms r
    by (simp add: balanced_spatial_average_def Let_def ones_like_Fin convolve_Fin s
        rect_ones_like shape0_ones_like shape1_ones_like)
  also have "\<dots> = map_arr Fin (map2_arr (/) (convolve x k) (convolve (ones_like x) k))"
    using c1 c2 nz by (rule map2_arr_Fin_divide)
  finally show ?thesis
    by (simp add: balanced_spatial_average_def Let_def)
qed

subsection \<open>The upsampled field\<close>


lemma upsampled_shape:
  "has_shape P m n \<Longrightarrow> has_shape (upsampled P d) (m * nat d) (n * nat d)"
  unfolding upsampled_def by (rule has_shape_repeat)



subsection \<open>Renormalization of a finite noise field\<close>

lemma weights_shape0: "shape0 (weights rad) = 2 * rad + 1"
  using weights_shape by (rule has_shape_shape0)

lemma weights_shape1: "shape1 (weights rad) = 2 * rad + 1"
  using weights_shape by (rule has_shape_shape1) simp

lemma weights_total_nz: "sum_list (ravel (weights rad)) \<noteq> 0"
  by (simp add: weights_total)

lemma bsa_weights_cell:
  fixes x :: "real array2"
  assumes "has_shape x m n" "i < m" "j < n"
  shows "balanced_spatial_average x (weights rad) ! i ! j = convolve x (weights rad) ! i ! j"
  using bsa_real_cell [OF assms weights_rect, of rad] by (simp add: weights_total)

lemma r_agg_pos:
  assumes "has_shape h m n" "i < m" "j < n"
  shows "0 < balanced_spatial_average (map_arr exp h) (weights rad) ! i ! j"
proof -
  have e: "has_shape (map_arr exp h) m n"
    using assms(1) by (rule has_shape_map_arr)
  have s: "shape0 (map_arr exp h) = m" "shape1 (map_arr exp h) = n"
    using e assms by (auto simp add: has_shape_shape0 has_shape_shape1)
  have "0 < convolve (map_arr exp h) (weights rad) ! i ! j"
  proof (rule convolve_pos [where c = rad and d = rad])
    show "i < shape0 (map_arr exp h)" "j < shape1 (map_arr exp h)"
      using assms by (simp_all add: s)
    show "0 < map_arr exp h ! a ! b"
      if "a < shape0 (map_arr exp h)" "b < shape1 (map_arr exp h)" for a b
      using that by (simp add: s map_arr_cell [OF assms(1)])
    show "0 \<le> weights rad ! a ! b" if "a < shape0 (weights rad)" "b < shape1 (weights rad)" for a b
      using that by (intro weights_nonneg) (simp_all add: weights_shape0 weights_shape1)
    show "rad < shape0 (weights rad)" "rad < shape1 (weights rad)"
      by (simp_all add: weights_shape0 weights_shape1)
    show "0 < weights rad ! rad ! rad"
      by (rule weights_centre)
  qed
  then show ?thesis
    by (simp only: bsa_weights_cell [OF e assms(2,3)])
qed


lemma renormalize_finite:
  assumes "has_shape P m n" "0 < m" "0 < n" "0 < d" "has_shape h (m * nat d) (n * nat d)"
  shows "renormalize P d (map_arr Fin h) None = map_arr Fin (finite_output P d h)"
proof -
  let ?M = "m * nat d" and ?N = "n * nat d"
  let ?w = "weights (radius d)"
  let ?e = "map_arr exp h"
  have pos: "0 < ?M" "0 < ?N" using assms by simp_all
  have Pu: "has_shape (upsampled P d) ?M ?N"
    using assms(1) by (rule upsampled_shape)
  have e: "has_shape ?e ?M ?N"
    using assms(5) by (rule has_shape_map_arr)
  have r: "map_arr np_exp (map_arr Fin h) = map_arr Fin ?e"
    by (simp add: map_arr_comp)
  have Pagg: "balanced_spatial_average (map_arr Fin (upsampled P d)) (map_arr Fin ?w)
      = map_arr Fin (balanced_spatial_average (upsampled P d) ?w)"
    using Pu pos weights_rect weights_total_nz by (rule bsa_Fin)
  have ragg: "balanced_spatial_average (map_arr Fin ?e) (map_arr Fin ?w)
      = map_arr Fin (balanced_spatial_average ?e ?w)"
    using e pos weights_rect weights_total_nz by (rule bsa_Fin)
  have sP: "has_shape (balanced_spatial_average (upsampled P d) ?w) ?M ?N"
    using Pu pos(1) by (rule has_shape_bsa)
  have sr: "has_shape (balanced_spatial_average ?e ?w) ?M ?N"
    using e pos(1) by (rule has_shape_bsa)
  have nz: "balanced_spatial_average ?e ?w ! i ! j \<noteq> 0" if "i < ?M" "j < ?N" for i j
    using r_agg_pos [OF assms(5) that, of "radius d"] by simp
  have ratio: "map2_arr divide (map_arr Fin (balanced_spatial_average (upsampled P d) ?w))
        (map_arr Fin (balanced_spatial_average ?e ?w))
      = map_arr Fin (map2_arr (/) (balanced_spatial_average (upsampled P d) ?w)
          (balanced_spatial_average ?e ?w))"
    using sP sr nz by (rule map2_arr_Fin_divide)
  have sratio: "has_shape (map2_arr (/) (balanced_spatial_average (upsampled P d) ?w)
          (balanced_spatial_average ?e ?w)) ?M ?N"
    using sP sr by (rule has_shape_map2_arr)
  show ?thesis
    by (simp only: renormalize_def Let_def option.case r tophat_Fin Pagg ragg ratio
        map2_arr_Fin_times [OF e sratio])
qed

subsection \<open>A noise field of zero standard deviation\<close>

lemma npf_add_NaN [simp]: "v + NaN = NaN"
  by (cases v) simp_all

lemma npf_times_NaN [simp]: "v * NaN = NaN"
  by (cases v) simp_all

lemma npf_divide_NaN [simp]: "divide v NaN = NaN"
  by (cases v) simp_all

lemma sum_list_NaN: "NaN \<in> set xs \<Longrightarrow> sum_list xs = NaN"
  by (induction xs) auto

lemma has_shape_replicate: "has_shape (replicate m (replicate n c)) m n"
  by (simp add: has_shape_def list_all_iff)

lemma map_arr_const: "has_shape x m n \<Longrightarrow> map_arr (\<lambda>_. c) x = replicate m (replicate n c)"
  by (rule array_eqI [where m = m and n = n])
     (simp_all add: has_shape_map_arr has_shape_replicate map_arr_cell)

lemma map_upt_member: "i < n \<Longrightarrow> f i \<in> set (map f [0..<n])"
  by simp

lemma convolve_NaN:
  assumes "0 < m" "0 < n" "c < shape0 k" "d < shape1 k" "k ! c ! d \<noteq> 0"
  shows "convolve (replicate m (replicate n NaN)) k = replicate m (replicate n NaN)"
proof (rule array_eqI [where m = m and n = n])
  let ?x = "replicate m (replicate n NaN)"
  have s: "shape0 ?x = m" "shape1 ?x = n"
    using assms has_shape_replicate [of m n NaN]
    by (simp_all add: has_shape_shape0 has_shape_shape1)
  show "has_shape (convolve ?x k) m n"
    using has_shape_convolve [of ?x k] by (simp only: s)
  show "has_shape ?x m n"
    by (rule has_shape_replicate)
  fix i j assume ij: "i < m" "j < n"
  let ?t = "\<lambda>a b. if k ! a ! b = 0 then 0
      else k ! a ! b * ?x ! reflect m (int i + int (shape0 k div 2) - int a)
        ! reflect n (int j + int (shape1 k div 2) - int b)"
  have cell: "?t c d = NaN"
    using assms by (simp add: reflect_less)
  have "?t c d \<in> set (map (?t c) [0..<shape1 k])"
    using assms(4) by (rule map_upt_member)
  then have "NaN \<in> set (map (?t c) [0..<shape1 k])"
    by (simp only: cell)
  then have inner: "(\<Sum>b\<leftarrow>[0..<shape1 k]. ?t c b) = NaN"
    by (rule sum_list_NaN)
  have "(\<Sum>b\<leftarrow>[0..<shape1 k]. ?t c b)
      \<in> set (map (\<lambda>a. \<Sum>b\<leftarrow>[0..<shape1 k]. ?t a b) [0..<shape0 k])"
    using assms(3) by (rule map_upt_member)
  then have "NaN \<in> set (map (\<lambda>a. \<Sum>b\<leftarrow>[0..<shape1 k]. ?t a b) [0..<shape0 k])"
    by (simp only: inner)
  then have "(\<Sum>a\<leftarrow>[0..<shape0 k]. \<Sum>b\<leftarrow>[0..<shape1 k]. ?t a b) = NaN"
    by (rule sum_list_NaN)
  then show "convolve ?x k ! i ! j = ?x ! i ! j"
    using ij by (simp only: convolve_nth s) simp
qed

lemma bsa_NaN:
  assumes "0 < m" "0 < n" "c < shape0 k" "d < shape1 k" "k ! c ! d \<noteq> 0"
  shows "balanced_spatial_average (replicate m (replicate n NaN)) k = replicate m (replicate n NaN)"
proof -
  let ?x = "replicate m (replicate n NaN)"
  have ones: "has_shape (convolve (ones_like ?x :: npf array2) k) m n"
    using assms(1) by (intro has_shape_convolve' ones_like_shape has_shape_replicate)
  show ?thesis
    unfolding balanced_spatial_average_def Let_def convolve_NaN [OF assms]
    by (rule array_eqI [where m = m and n = n])
       (simp_all add: has_shape_map2_arr has_shape_replicate ones
         map2_arr_cell [OF has_shape_replicate ones])
qed

lemma divide_by_NaN:
  assumes "has_shape A m n"
  shows "map2_arr divide A (replicate m (replicate n NaN)) = replicate m (replicate n NaN)"
  by (rule array_eqI [where m = m and n = n])
     (simp_all add: has_shape_map2_arr has_shape_replicate assms
       map2_arr_cell [OF assms has_shape_replicate])

lemma times_NaN:
  "map2_arr (*) (replicate m (replicate n NaN)) (replicate m (replicate n NaN))
    = replicate m (replicate n NaN)"
  by (rule array_eqI [where m = m and n = n])
     (simp_all add: has_shape_map2_arr has_shape_replicate
       map2_arr_cell [OF has_shape_replicate has_shape_replicate])

lemma censor_NaN: "censor t (replicate m (replicate n NaN)) = replicate m (replicate n NaN)"
  unfolding censor_def
  by (rule array_eqI [where m = m and n = n])
     (simp_all add: has_shape_map_arr has_shape_replicate map_arr_cell [OF has_shape_replicate])

lemma tophat_centre: "tophat rad ! rad ! rad \<noteq> 0"
  using weights_centre [of rad] weights_shape [of rad]
  by (simp add: tophat_Fin Fin_zero_iff map_arr_cell [OF weights_shape, of rad rad rad Fin])

lemma tophat_shape: "has_shape (tophat rad) (2 * rad + 1) (2 * rad + 1)"
  unfolding tophat_def by (intro has_shape_map_arr disc_shape)

lemma renormalize_NaN:
  assumes "has_shape P m n" "0 < m" "0 < n" "0 < d"
  shows "renormalize P d (replicate (m * nat d) (replicate (n * nat d) NaN)) threshold
    = replicate (m * nat d) (replicate (n * nat d) NaN)"
proof -
  let ?M = "m * nat d" and ?N = "n * nat d"
  let ?x = "replicate ?M (replicate ?N NaN)"
  have pos: "0 < ?M" "0 < ?N" using assms by simp_all
  have r: "map_arr np_exp ?x = ?x"
    by (rule array_eqI [where m = ?M and n = ?N])
       (simp_all add: has_shape_map_arr has_shape_replicate map_arr_cell [OF has_shape_replicate])
  have c: "radius d < shape0 (tophat (radius d))" "radius d < shape1 (tophat (radius d))"
    using tophat_shape [of "radius d"] by (simp_all add: has_shape_shape0 has_shape_shape1)
  have ragg: "balanced_spatial_average ?x (tophat (radius d)) = ?x"
    using pos c tophat_centre by (rule bsa_NaN)
  have Pagg: "has_shape (balanced_spatial_average (map_arr Fin (upsampled P d)) (tophat (radius d))) ?M ?N"
    using assms pos by (intro has_shape_bsa has_shape_map_arr upsampled_shape)
  have core: "map2_arr (*) (map_arr np_exp ?x)
      (map2_arr divide
        (balanced_spatial_average (map_arr Fin (upsampled P d)) (tophat (radius d)))
        (balanced_spatial_average (map_arr np_exp ?x) (tophat (radius d)))) = ?x"
    by (simp only: r ragg divide_by_NaN [OF Pagg] times_NaN)
  show ?thesis
    by (cases threshold) (simp_all only: renormalize_def Let_def core option.case censor_NaN)
qed

lemma noise_shape:
  assumes "has_shape q M N" "0 < M"
  shows "has_shape (noise rand alpha q) M N"
  using has_shape_ifft2 [of "spectrum rand alpha q"] has_shape_spectrum [OF assms, of rand alpha] assms
  by (simp add: noise_def has_shape_shape0 has_shape_shape1 has_shape_map_arr)

lemma noise_sum_zero:
  assumes "has_shape q M N" "0 < M" "0 < N"
  shows "sum_list (ravel (noise rand alpha q)) = 0"
  using ifft2_real_total [OF has_shape_spectrum [OF assms(1,2)] assms(2,3), of rand alpha]
    spectrum_dc [OF assms, of rand alpha]
  by (simp add: noise_def)

lemma std_zero_cells:
  assumes "ravel g \<noteq> []" "std g = Fin 0" "v \<in> set (ravel g)"
  shows "v = mean (ravel g)"
proof -
  let ?xs = "ravel g"
  let ?sq = "map (\<lambda>v. \<bar>v - mean ?xs\<bar>\<^sup>2) ?xs"
  have nonneg: "0 \<le> mean ?sq"
    by (rule mean_nonneg) auto
  have "sqrt (mean ?sq) = 0"
    using assms(1,2) by (simp add: std_def Let_def)
  then have "mean ?sq = 0"
    using nonneg by simp
  then have "sum_list ?sq = 0"
    using assms(1) by (simp add: mean_def)
  then have "\<forall>u\<in>set ?sq. u = 0"
    by (subst (asm) sum_list_nonneg_eq_0_iff) auto
  then have "\<bar>v - mean ?xs\<bar>\<^sup>2 = 0"
    using assms(3) by auto
  then show ?thesis by simp
qed

lemma set_ravel_cell:
  "has_shape x m n \<Longrightarrow> i < m \<Longrightarrow> j < n \<Longrightarrow> x ! i ! j \<in> set (ravel x)"
  unfolding ravel_def
  by (auto simp add: has_shape_length has_shape_nth_length intro!: bexI [where x = "x ! i"])

lemma synthesize_degenerate:
  assumes "has_shape q M N" "0 < M" "0 < N" "std (noise rand alpha q) = Fin 0"
  shows "synthesize rand alpha q = replicate M (replicate N NaN)"
proof (rule array_eqI [where m = M and n = N])
  let ?g = "noise rand alpha q"
  have g: "has_shape ?g M N"
    using assms(1,2) by (rule noise_shape)
  have ne: "ravel ?g \<noteq> []"
    using length_ravel [OF g] assms by auto
  have mean0: "mean (ravel ?g) = 0"
    using noise_sum_zero [OF assms(1,2,3), of rand alpha] by (simp add: mean_def)
  show "has_shape (synthesize rand alpha q) M N"
    using assms(1,2) by (rule has_shape_synthesize)
  show "has_shape (replicate M (replicate N NaN)) M N"
    by (rule has_shape_replicate)
  fix i j assume ij: "i < M" "j < N"
  have "?g ! i ! j = 0"
    using std_zero_cells [OF ne assms(4) set_ravel_cell [OF g ij]] mean0 by simp
  then show "synthesize rand alpha q ! i ! j = replicate M (replicate N NaN) ! i ! j"
    using ij by (simp add: synthesize_def Let_def map_arr_cell [OF g] assms(4))
qed

lemma synthesize_finite:
  assumes "has_shape q M N" "0 < M" "0 < N" "std (noise rand alpha q) \<noteq> Fin 0"
  shows "\<exists>h. has_shape h M N \<and> synthesize rand alpha q = map_arr Fin h"
proof -
  let ?g = "noise rand alpha q"
  have g: "has_shape ?g M N"
    using assms(1,2) by (rule noise_shape)
  have ne: "ravel ?g \<noteq> []"
    using length_ravel [OF g] assms by auto
  obtain t where t: "std ?g = Fin t" "0 \<le> t"
    using ne by (rule std_cases)
  then have tnz: "t \<noteq> 0" using assms(4) by auto
  have "synthesize rand alpha q = map_arr Fin (map_arr (\<lambda>v. v / t) ?g)"
    using tnz by (simp add: synthesize_def Let_def t map_arr_comp)
  moreover have "has_shape (map_arr (\<lambda>v. v / t) ?g) M N"
    using g by (rule has_shape_map_arr)
  ultimately show ?thesis by blast
qed

subsection \<open>The whole call\<close>

lemma downscale_unfold:
  assumes "has_shape P m n" "1 \<le> m" "1 \<le> n" "1 \<le> d"
  obtains ki kj ki_ds kj_ds where
    "fftfreq (int m) 1 = Inr ki" "fftfreq (int n) 1 = Inr kj"
    "fftfreq (int m * d) (1 / real_of_int d) = Inr ki_ds"
    "fftfreq (int n * d) (1 / real_of_int d) = Inr kj_ds"
    "has_shape (outer_sqr ki_ds kj_ds) (m * nat d) (n * nat d)"
    "\<And>rand deficient alpha threshold.
      downscale rand deficient P alpha d threshold =
        raising (case alpha of
                   None \<Rightarrow> estimate_slope deficient P (map_arr sqrt (outer_sqr ki kj))
                 | Some a \<Rightarrow> Inr a)
          (\<lambda>a. Inr (renormalize P d (synthesize rand a (outer_sqr ki_ds kj_ds)) threshold))"
proof -
  have s0: "shape0 P = m" and s1: "shape1 P = n"
    using assms by (simp_all add: has_shape_shape0 has_shape_shape1)
  have dpos: "0 < int m * d" "0 < int n * d"
    using assms by simp_all
  obtain ki where ki: "fftfreq (int m) 1 = Inr ki"
    using assms fftfreq_ok [of "int m" 1] by auto
  obtain kj where kj: "fftfreq (int n) 1 = Inr kj"
    using assms fftfreq_ok [of "int n" 1] by auto
  obtain ki_ds where ki_ds: "fftfreq (int m * d) (1 / real_of_int d) = Inr ki_ds"
    using assms fftfreq_ok [OF dpos(1), of "1 / real_of_int d"] by auto
  obtain kj_ds where kj_ds: "fftfreq (int n * d) (1 / real_of_int d) = Inr kj_ds"
    using assms fftfreq_ok [OF dpos(2), of "1 / real_of_int d"] by auto
  have q: "has_shape (outer_sqr ki_ds kj_ds) (m * nat d) (n * nat d)"
    using has_shape_outer_sqr [of ki_ds kj_ds] fftfreq_length [OF ki_ds] fftfreq_length [OF kj_ds]
      assms by (simp add: nat_mult_distrib)
  have "downscale rand deficient P alpha d threshold =
        raising (case alpha of
                   None \<Rightarrow> estimate_slope deficient P (map_arr sqrt (outer_sqr ki kj))
                 | Some a \<Rightarrow> Inr a)
          (\<lambda>a. Inr (renormalize P d (synthesize rand a (outer_sqr ki_ds kj_ds)) threshold))"
    for rand deficient alpha threshold
    using assms by (simp add: downscale_def raising_def s0 s1 ki kj ki_ds kj_ds Let_def)
  then show thesis
    using that ki kj ki_ds kj_ds q by blast
qed






lemma list_all_cells:
  assumes "has_shape r m n" "\<And>i j. i < m \<Longrightarrow> j < n \<Longrightarrow> Q (r ! i ! j)"
  shows "list_all (list_all Q) r"
  unfolding list_all_length
proof (intro allI impI)
  fix i j assume "i < length r" "j < length (r ! i)"
  then have "i < m" "j < n"
    using assms(1) by (simp_all add: has_shape_length has_shape_nth_length)
  then show "Q (r ! i ! j)" by (rule assms(2))
qed



lemma renormalize_cases:
  assumes "has_shape P m n" "1 \<le> m" "1 \<le> n" "1 \<le> d"
    and "has_shape q (m * nat d) (n * nat d)"
  shows "(std (noise rand a q) = Fin 0 \<and>
          renormalize P d (synthesize rand a q) threshold
            = replicate (m * nat d) (replicate (n * nat d) NaN)) \<or>
         (std (noise rand a q) \<noteq> Fin 0 \<and>
          (\<exists>h. has_shape h (m * nat d) (n * nat d) \<and>
             renormalize P d (synthesize rand a q) None = map_arr Fin (finite_output P d h)))"
proof (cases "std (noise rand a q) = Fin 0")
  case True
  have pos: "0 < m * nat d" "0 < n * nat d" using assms by simp_all
  have "synthesize rand a q = replicate (m * nat d) (replicate (n * nat d) NaN)"
    using assms(5) pos True by (rule synthesize_degenerate)
  then show ?thesis
    using True assms renormalize_NaN [of P m n d threshold] by simp
next
  case False
  have pos: "0 < m * nat d" "0 < n * nat d" using assms by simp_all
  obtain h where h: "has_shape h (m * nat d) (n * nat d)" "synthesize rand a q = map_arr Fin h"
    using synthesize_finite [OF assms(5) pos False] by blast
  have "renormalize P d (map_arr Fin h) None = map_arr Fin (finite_output P d h)"
    using assms h(1) by (intro renormalize_finite) simp_all
  then show ?thesis
    using False h by auto
qed

subsection \<open>Non-negative output, unless the noise is degenerate\<close>


lemma downscale_unfold_ex:
  assumes "has_shape P m n" "1 \<le> m" "1 \<le> n" "1 \<le> d"
  shows "\<exists>ki kj ki_ds kj_ds.
    fftfreq (int m) 1 = Inr ki \<and> fftfreq (int n) 1 = Inr kj \<and>
    fftfreq (int m * d) (1 / real_of_int d) = Inr ki_ds \<and>
    fftfreq (int n * d) (1 / real_of_int d) = Inr kj_ds \<and>
    has_shape (outer_sqr ki_ds kj_ds) (m * nat d) (n * nat d) \<and>
    (\<forall>rand deficient alpha threshold.
      downscale rand deficient P alpha d threshold =
        raising (case alpha of
                   None \<Rightarrow> estimate_slope deficient P (map_arr sqrt (outer_sqr ki kj))
                 | Some a \<Rightarrow> Inr a)
          (\<lambda>a. Inr (renormalize P d (synthesize rand a (outer_sqr ki_ds kj_ds)) threshold)))"
proof (rule downscale_unfold [OF assms])
  fix ki kj ki_ds kj_ds
  assume "fftfreq (int m) 1 = Inr ki" "fftfreq (int n) 1 = Inr kj"
    "fftfreq (int m * d) (1 / real_of_int d) = Inr ki_ds"
    "fftfreq (int n * d) (1 / real_of_int d) = Inr kj_ds"
    "has_shape (outer_sqr ki_ds kj_ds) (m * nat d) (n * nat d)"
    "\<And>rand deficient alpha threshold.
      downscale rand deficient P alpha d threshold =
        raising (case alpha of
                   None \<Rightarrow> estimate_slope deficient P (map_arr sqrt (outer_sqr ki kj))
                 | Some a \<Rightarrow> Inr a)
          (\<lambda>a. Inr (renormalize P d (synthesize rand a (outer_sqr ki_ds kj_ds)) threshold))"
  then show ?thesis
    by (intro exI conjI allI)
qed



lemma downscale_supplied:
  assumes "has_shape P m n" "1 \<le> m" "1 \<le> n" "1 \<le> d"
    and "fftfreq (int m * d) (1 / real_of_int d) = Inr ki_ds"
    and "fftfreq (int n * d) (1 / real_of_int d) = Inr kj_ds"
  shows "downscale rand deficient P (Some a) d threshold
    = Inr (renormalize P d (synthesize rand a (outer_sqr ki_ds kj_ds)) threshold)"
  using downscale_unfold_ex [OF assms(1-4)] assms(5,6)
  by (auto simp add: raising_def)

lemma downscale_degenerate:
  assumes "has_shape P m n" "1 \<le> m" "1 \<le> n" "1 \<le> d"
    and "fftfreq (int m * d) (1 / real_of_int d) = Inr ki_ds"
    and "fftfreq (int n * d) (1 / real_of_int d) = Inr kj_ds"
    and "std (noise rand a (outer_sqr ki_ds kj_ds)) = Fin 0"
  shows "downscale rand deficient P (Some a) d threshold
    = Inr (replicate (m * nat d) (replicate (n * nat d) NaN))"
proof -
  have q: "has_shape (outer_sqr ki_ds kj_ds) (m * nat d) (n * nat d)"
    using has_shape_outer_sqr [of ki_ds kj_ds] fftfreq_length [OF assms(5)]
      fftfreq_length [OF assms(6)] assms(1-4) by (simp add: nat_mult_distrib)
  show ?thesis
    using renormalize_cases [OF assms(1-4) q, of rand a threshold] assms(7)
    by (simp add: downscale_supplied [OF assms(1-6)])
qed



lemma fftfreq_1: "fftfreq 1 1 = Inr [0]"
  by (simp add: fftfreq_def)


lemma noise_1x1: "noise rand a [[0]] = [[0]]"
  by (simp add: noise_def spectrum_def ifft2_def shape0_def shape1_def map2_arr_def map_arr_def)

lemma std_1x1: "std [[0]] = Fin 0"
  by (simp add: std_def ravel_def mean_def)

lemma downscale_1x1:
  "downscale rand deficient [[1]] (Some a) 1 threshold = Inr [[NaN]]"
  using downscale_degenerate [where P = "[[1]]" and m = 1 and n = 1 and d = 1
      and ki_ds = "[0]" and kj_ds = "[0]" and rand = rand and a = a
      and deficient = deficient and threshold = threshold]
  by (simp add: has_shape_def fftfreq_1 outer_sqr_def noise_1x1 std_1x1)




text \<open>
  C5 (as amended). When the noise field has standard deviation zero, \<open>downscale\<close> raises
  nothing: it divides zero by zero and returns an array of the output shape that is \<open>nan\<close>
  at every cell.
\<close>

theorem zero_std_returns_nan:
  assumes "has_shape P m n" "1 \<le> m" "1 \<le> n" "1 \<le> ds_factor"
    and "fftfreq (int m * ds_factor) (1 / real_of_int ds_factor) = Inr ki_ds"
    and "fftfreq (int n * ds_factor) (1 / real_of_int ds_factor) = Inr kj_ds"
    and "std (noise rand a (outer_sqr ki_ds kj_ds)) = Fin 0"
  shows "\<exists>r. downscale rand deficient P (Some a) ds_factor threshold = Inr r \<and>
    has_shape r (m * nat ds_factor) (n * nat ds_factor) \<and>
    list_all (list_all (\<lambda>v. v = NaN)) r"
proof -
  let ?r = "replicate (m * nat ds_factor) (replicate (n * nat ds_factor) NaN)"
  have "downscale rand deficient P (Some a) ds_factor threshold = Inr ?r"
    using assms by (rule downscale_degenerate)
  moreover have "has_shape ?r (m * nat ds_factor) (n * nat ds_factor)"
    by (rule has_shape_replicate)
  moreover have "list_all (list_all (\<lambda>v. v = NaN)) ?r"
    by (simp add: list_all_length)
  ultimately show ?thesis by blast
qed

theorem zero_std_returns_nan_witness:
  "has_shape [[2 :: real]] 1 1 \<and> fftfreq (int 1 * 1) (1 / real_of_int 1) = Inr [0] \<and>
   std (noise (\<lambda>a b. 0) 0 (outer_sqr [0] [0])) = Fin 0 \<and>
   (\<exists>r. downscale (\<lambda>a b. 0) (\<lambda>x y. Inl ''LinAlgError'') [[2]] (Some 0) 1 (Some 1) = Inr r \<and>
        has_shape r 1 1 \<and> list_all (list_all (\<lambda>v. v = NaN)) r)"
  using zero_std_returns_nan [where P = "[[2]]" and m = 1 and n = 1 and ds_factor = 1
      and ki_ds = "[0]" and kj_ds = "[0]" and rand = "\<lambda>a b. 0" and a = 0
      and deficient = "\<lambda>x y. Inl ''LinAlgError''" and threshold = "Some 1"]
  by (simp add: has_shape_def fftfreq_1 outer_sqr_def noise_1x1 std_1x1)

text \<open>
  C5 as stated fails: on a \<open>1 \<times> 1\<close> field with factor 1 the noise field has standard
  deviation zero, and the call returns \<open>[[nan]]\<close>; it raises no error.
\<close>

theorem zero_std_raises_nothing:
  "std (noise (\<lambda>a b. 0) 1 (outer_sqr [0] [0])) = Fin 0 \<and>
   downscale (\<lambda>a b. 0) (\<lambda>x y. Inl ''LinAlgError'') [[1]] (Some 1) 1 None = Inr [[NaN]] \<and>
   downscale (\<lambda>a b. 0) (\<lambda>x y. Inl ''LinAlgError'') [[1]] (Some 1) 1 None
     \<noteq> Inl ''DegenerateFieldError''"
  by (simp add: downscale_1x1 outer_sqr_def noise_1x1 std_1x1)

text \<open>
  C10. For a finite normalised noise field, \<open>r = exp g\<close> is positive at every cell; the
  kernel is non-negative, its centre cell lies in the disc for every radius, so its total
  is positive; and the balanced average \<open>r_agg\<close> of \<open>r\<close> is finite and positive at every
  cell, so that the division by it meets no zero.
\<close>

theorem r_agg_positive:
  assumes "has_shape h m n" "0 < m" "0 < n"
  shows "let r = map_arr np_exp (map_arr Fin h);
             r_agg = balanced_spatial_average r (tophat rad)
         in list_all (list_all (\<lambda>v. \<exists>x. v = Fin x \<and> 0 < x)) r \<and>
            list_all (list_all (\<lambda>v. \<exists>w. v = Fin w \<and> 0 \<le> w)) (tophat rad) \<and>
            disc rad ! rad ! rad = 1 \<and> 0 < sum_list (ravel (disc rad)) \<and>
            list_all (list_all (\<lambda>v. \<exists>x. v = Fin x \<and> 0 < x)) r_agg"
proof -
  let ?e = "map_arr exp h"
  have e: "has_shape ?e m n"
    using assms(1) by (rule has_shape_map_arr)
  have r: "map_arr np_exp (map_arr Fin h) = map_arr Fin ?e"
    by (simp add: map_arr_comp)
  have a: "list_all (list_all (\<lambda>v. \<exists>x. v = Fin x \<and> 0 < x)) (map_arr Fin ?e)"
    using has_shape_map_arr [OF e]
    by (rule list_all_cells) (simp add: map_arr_cell [OF e] map_arr_cell [OF assms(1)])
  have b: "list_all (list_all (\<lambda>v. \<exists>w. v = Fin w \<and> 0 \<le> w)) (tophat rad)"
    unfolding tophat_Fin using has_shape_map_arr [OF weights_shape]
    by (rule list_all_cells) (simp add: map_arr_cell [OF weights_shape] weights_nonneg)
  have ragg: "balanced_spatial_average (map_arr Fin ?e) (tophat rad)
      = map_arr Fin (balanced_spatial_average ?e (weights rad))"
    unfolding tophat_Fin using e assms(2,3) weights_rect weights_total_nz by (rule bsa_Fin)
  have sr: "has_shape (balanced_spatial_average ?e (weights rad)) m n"
    using e assms(2) by (rule has_shape_bsa)
  have c: "list_all (list_all (\<lambda>v. \<exists>x. v = Fin x \<and> 0 < x))
      (map_arr Fin (balanced_spatial_average ?e (weights rad)))"
    using has_shape_map_arr [OF sr]
    by (rule list_all_cells) (simp add: map_arr_cell [OF sr] r_agg_pos [OF assms(1)])
  show ?thesis
    unfolding Let_def r ragg using a b c disc_centre disc_total_pos by blast
qed

theorem r_agg_positive_witness:
  "has_shape [[0 :: real]] 1 1 \<and>
   list_all (list_all (\<lambda>v. \<exists>x. v = Fin x \<and> 0 < x))
     (balanced_spatial_average (map_arr np_exp (map_arr Fin [[0]])) (tophat 1)) \<and>
   0 < sum_list (ravel (disc 1))"
  using r_agg_positive [where h = "[[0]]" and m = 1 and n = 1 and rad = 1]
  by (simp add: has_shape_def Let_def)

subsection \<open>The balanced average at the edges\<close>










subsection \<open>The least-squares line\<close>











subsection \<open>The estimated slope\<close>
































subsection \<open>The local average of the rescaled field\<close>

text \<open>
  The local average of a field \<open>e\<close> rescaled pointwise by a ratio \<open>rho\<close> lies between the
  bounds of the ratio times the local average of \<open>e\<close>: it is the local average of \<open>e\<close>
  times the ratio where the ratio is constant, and not in general.
\<close>

lemma rescaled_average_bounds:
  fixes e rho :: "real array2"
  assumes "has_shape e m n" "has_shape rho m n" "i < m" "j < n"
    and "\<And>a b. a < m \<Longrightarrow> b < n \<Longrightarrow> 0 < e ! a ! b"
    and "\<And>a b. a < m \<Longrightarrow> b < n \<Longrightarrow> lo \<le> rho ! a ! b \<and> rho ! a ! b \<le> hi"
  shows "lo * balanced_spatial_average e (weights rad) ! i ! j
      \<le> balanced_spatial_average (map2_arr (*) e rho) (weights rad) ! i ! j"
    and "balanced_spatial_average (map2_arr (*) e rho) (weights rad) ! i ! j
      \<le> hi * balanced_spatial_average e (weights rad) ! i ! j"
proof -
  let ?w = "weights rad"
  let ?x = "map2_arr (*) e rho"
  let ?ri = "\<lambda>a. reflect m (int i + int (shape0 ?w div 2) - int a)"
  let ?rj = "\<lambda>b. reflect n (int j + int (shape1 ?w div 2) - int b)"
  have pos: "0 < m" "0 < n" using assms by auto
  have x: "has_shape ?x m n"
    using assms(1,2) by (rule has_shape_map2_arr)
  have se: "shape0 e = m" "shape1 e = n" and sx: "shape0 ?x = m" "shape1 ?x = n"
    using assms(1) x pos by (simp_all add: has_shape_shape0 has_shape_shape1)
  have ce: "balanced_spatial_average e ?w ! i ! j
      = (\<Sum>a<shape0 ?w. \<Sum>b<shape1 ?w. ?w ! a ! b * e ! ?ri a ! ?rj b)"
    using assms(3,4) convolve_real_sum [of i e j ?w]
    by (simp only: bsa_weights_cell [OF assms(1,3,4)] se)
  have cx: "balanced_spatial_average ?x ?w ! i ! j
      = (\<Sum>a<shape0 ?w. \<Sum>b<shape1 ?w. ?w ! a ! b * (e ! ?ri a ! ?rj b * rho ! ?ri a ! ?rj b))"
  proof -
    have "?x ! ?ri a ! ?rj b = e ! ?ri a ! ?rj b * rho ! ?ri a ! ?rj b" for a b
      using pos by (simp add: map2_arr_cell [OF assms(1,2)] reflect_less)
    then show ?thesis
      using assms(3,4) convolve_real_sum [of i ?x j ?w]
      by (simp only: bsa_weights_cell [OF x assms(3,4)] sx)
  qed
  have both: "lo * (?w ! a ! b * e ! ?ri a ! ?rj b)
        \<le> ?w ! a ! b * (e ! ?ri a ! ?rj b * rho ! ?ri a ! ?rj b) \<and>
      ?w ! a ! b * (e ! ?ri a ! ?rj b * rho ! ?ri a ! ?rj b)
        \<le> hi * (?w ! a ! b * e ! ?ri a ! ?rj b)"
    if "a < shape0 ?w" "b < shape1 ?w" for a b
  proof -
    have r: "?ri a < m" "?rj b < n" using pos by (simp_all add: reflect_less)
    have we: "0 \<le> ?w ! a ! b * e ! ?ri a ! ?rj b"
      using that assms(5) [OF r] weights_nonneg [of a rad b]
      by (simp add: weights_shape0 weights_shape1)
    have "lo * (?w ! a ! b * e ! ?ri a ! ?rj b) \<le> rho ! ?ri a ! ?rj b * (?w ! a ! b * e ! ?ri a ! ?rj b)"
      using assms(6) [OF r] we by (intro mult_right_mono) simp_all
    moreover have "rho ! ?ri a ! ?rj b * (?w ! a ! b * e ! ?ri a ! ?rj b) \<le> hi * (?w ! a ! b * e ! ?ri a ! ?rj b)"
      using assms(6) [OF r] we by (intro mult_right_mono) simp_all
    ultimately show ?thesis by (simp add: mult_ac)
  qed
  show "lo * balanced_spatial_average e ?w ! i ! j \<le> balanced_spatial_average ?x ?w ! i ! j"
    unfolding ce cx sum_distrib_left
    by (intro sum_mono) (use both in auto)
  show "balanced_spatial_average ?x ?w ! i ! j \<le> hi * balanced_spatial_average e ?w ! i ! j"
    unfolding ce cx sum_distrib_left
    by (intro sum_mono) (use both in auto)
qed


text \<open>Without a slope, the call is the call with the slope that line 92 estimates.\<close>

lemma downscale_estimates:
  assumes "has_shape P m n" "1 \<le> m" "1 \<le> n" "1 \<le> d"
    and "fftfreq (int m) 1 = Inr ki" "fftfreq (int n) 1 = Inr kj"
    and "estimate_slope deficient P (map_arr sqrt (outer_sqr ki kj)) = Inr a"
  shows "downscale rand deficient P None d threshold
    = downscale rand deficient P (Some a) d threshold"
  using downscale_unfold_ex [OF assms(1-4)] assms(5,6,7)
  by (auto simp add: raising_def)

end
